theory Spec2Isabelle
  imports Main "HOL-Library.Sublist" "HOL-Library.Multiset"
begin

section \<open>Python string primitives used by the patch scripts\<close>

text \<open>
  A text buffer is a list of characters. \<open>str.find\<close> returns the lowest index at which
  the argument occurs, and \<open>-1\<close> when it does not occur; the scripts compare the result
  with \<open>-1\<close> and slice with it, so the result is an \<open>int\<close>.
\<close>

fun find_from :: "nat \<Rightarrow> 'a list \<Rightarrow> 'a list \<Rightarrow> int" where
  "find_from i [] sub = (if sub = [] then int i else - 1)"
| "find_from i (c # cs) sub =
     (if prefix sub (c # cs) then int i else find_from (Suc i) cs sub)"

definition str_find :: "'a list \<Rightarrow> 'a list \<Rightarrow> int" where
  "str_find s sub = find_from 0 s sub"

text \<open>
  Python slices \<open>s[:k]\<close> and \<open>s[k:]\<close>: a negative bound counts from the end and is
  clipped at the start of the string, a bound past the end is clipped at the end.
\<close>

definition slice_to :: "'a list \<Rightarrow> int \<Rightarrow> 'a list" where
  "slice_to s k = (if k < 0 then take (nat (int (length s) + k)) s else take (nat k) s)"

definition slice_from :: "'a list \<Rightarrow> int \<Rightarrow> 'a list" where
  "slice_from s k = (if k < 0 then drop (nat (int (length s) + k)) s else drop (nat k) s)"

definition py_bool :: "bool \<Rightarrow> string" where
  "py_bool b = (if b then ''True'' else ''False'')"

section \<open>Files, output and exit status of a script run\<close>

definition backslash :: char where
  "backslash = CHR 0x5C"

definition newline :: char where
  "newline = CHR 0x0A"

fun win_path :: "string list \<Rightarrow> string" where
  "win_path [] = []"
| "win_path [c] = c"
| "win_path (c # cs) = c @ backslash # win_path cs"

datatype error =
  FileNotFoundError | NotADirectoryError | IsADirectoryError | PermissionError
  | FileExistsError | JSONDecodeError | TypeError | AttributeError | KeyError

datatype status = Completed | SystemExit nat | Raised error

type_synonym text_files = "string \<rightharpoonup> string"

record outcome =
  stdout :: "string list"
  status :: status
  files :: text_files

section \<open>The getStylesCSS patch script (\<^verbatim>\<open>src/update_index.py\<close>)\<close>

definition index_path :: string where
  "index_path = win_path [''c:'', ''Users'', ''nrame'', ''OneDrive'', ''Desktop'',
     ''Link Sharing App'', ''src'', ''index.js'']"

definition styles_snippet_path :: string where
  "styles_snippet_path = win_path [''c:'', ''Users'', ''nrame'', ''OneDrive'', ''Desktop'',
     ''Link Sharing App'', ''src'', ''new_styles_snippet.js'']"

definition styles_start_marker :: string where
  "styles_start_marker = ''function getStylesCSS() {''"

definition styles_end_marker :: string where
  "styles_end_marker = ''function getAppJS() {''"

definition styles_separator :: string where
  "styles_separator = [newline, newline]"

definition update_index :: "text_files \<Rightarrow> outcome" where
  "update_index fs =
     (case fs index_path of
        None \<Rightarrow> \<lparr>stdout = [], status = Raised FileNotFoundError, files = fs\<rparr>
      | Some content \<Rightarrow>
     (case fs styles_snippet_path of
        None \<Rightarrow> \<lparr>stdout = [], status = Raised FileNotFoundError, files = fs\<rparr>
      | Some new_css_func \<Rightarrow>
     (let start_idx = str_find content styles_start_marker;
          end_idx = str_find content styles_end_marker
      in if start_idx = - 1 \<or> end_idx = - 1
         then \<lparr>stdout = [''Error: Could not find markers''],
               status = SystemExit 1, files = fs\<rparr>
         else
           (let new_content = slice_to content start_idx @ new_css_func
                                @ styles_separator @ slice_from content end_idx
            in \<lparr>stdout = [''Successfully updated index.js''],
                status = Completed,
                files = fs(index_path \<mapsto> new_content)\<rparr>))))"

section \<open>The renderLinks patch script (\<^verbatim>\<open>src/update_js.py\<close>)\<close>

definition render_snippet_path :: string where
  "render_snippet_path = win_path [''c:'', ''Users'', ''nrame'', ''OneDrive'', ''Desktop'',
     ''Link Sharing App'', ''src'', ''new_render_links_snippet.js'']"

definition render_start_marker :: string where
  "render_start_marker = ''renderLinks() {''"

definition render_end_marker :: string where
  "render_end_marker = ''async copyLink(url) {''"

definition render_loose_end_marker :: string where
  "render_loose_end_marker = ''copyLink(url) {''"

definition render_separator :: string where
  "render_separator = [newline, newline] @ ''    ''"

text \<open>
  The tail of the script, from the splice on: it is reached with the offsets the
  locator settled on and the lines printed so far.
\<close>

definition render_write :: "text_files \<Rightarrow> string \<Rightarrow> string \<Rightarrow> string list
    \<Rightarrow> int \<Rightarrow> int \<Rightarrow> outcome" where
  "render_write fs content new_func out start_idx end_idx =
     (let new_content = slice_to content start_idx @ new_func
                          @ render_separator @ slice_from content end_idx
      in \<lparr>stdout = out @ [''Successfully updated renderLinks in index.js''],
          status = Completed,
          files = fs(index_path \<mapsto> new_content)\<rparr>)"

definition update_js :: "text_files \<Rightarrow> outcome" where
  "update_js fs =
     (case fs index_path of
        None \<Rightarrow> \<lparr>stdout = [], status = Raised FileNotFoundError, files = fs\<rparr>
      | Some content \<Rightarrow>
     (case fs render_snippet_path of
        None \<Rightarrow> \<lparr>stdout = [], status = Raised FileNotFoundError, files = fs\<rparr>
      | Some new_func \<Rightarrow>
     (let start_idx = str_find content render_start_marker;
          end_idx = str_find content render_end_marker
      in if start_idx = - 1 \<or> end_idx = - 1
         then
           (let out = [''Error: Could not find markers'',
                       ''Start found: '' @ py_bool (start_idx \<noteq> - 1),
                       ''End found: '' @ py_bool (end_idx \<noteq> - 1)]
            in if end_idx = - 1
               then
                 (let end_idx' = str_find content render_loose_end_marker
                  in if end_idx' = - 1
                     then \<lparr>stdout = out @ [''Error: Could not find end marker strict or loose''],
                           status = SystemExit 1, files = fs\<rparr>
                     else render_write fs content new_func out start_idx end_idx')
               else render_write fs content new_func out start_idx end_idx)
         else render_write fs content new_func [] start_idx end_idx)))"

subsection \<open>The splice property and the fixtures of the patch scripts\<close>

text \<open>
  What the specification asks of a spliced buffer \<open>N\<close>, for a buffer \<open>B\<close> with the start
  marker at \<open>i\<close> and the end marker at \<open>j\<close>, a replacement \<open>R\<close> and a separator.
\<close>

definition splice_property ::
    "'a list \<Rightarrow> nat \<Rightarrow> nat \<Rightarrow> 'a list \<Rightarrow> 'a list \<Rightarrow> 'a list \<Rightarrow> bool" where
  "splice_property B i j R sep N \<longleftrightarrow>
     take i N = take i B \<and> take (length R) (drop i N) = R
     \<and> drop (i + length R + length sep) N = drop j B"

definition styles_fixture :: text_files where
  "styles_fixture =
     [index_path \<mapsto> ''/* a */ function getStylesCSS() { old } function getAppJS() { x }'',
      styles_snippet_path \<mapsto> ''function getStylesCSS() { new }'']"

definition render_fixture :: text_files where
  "render_fixture =
     [index_path \<mapsto> ''  renderLinks() { old } async copyLink(url) { x }'',
      render_snippet_path \<mapsto> ''renderLinks() { new }'']"

definition fallback_fixture :: text_files where
  "fallback_fixture =
     [index_path \<mapsto> ''renderLinks() { old } copyLink(url) { x }'',
      render_snippet_path \<mapsto> ''renderLinks() { new }'']"

definition no_end_fixture :: text_files where
  "no_end_fixture =
     [index_path \<mapsto> ''renderLinks() { old } shareLink(url) { x }'',
      render_snippet_path \<mapsto> ''renderLinks() { new }'']"

definition no_start_styles_fixture :: text_files where
  "no_start_styles_fixture =
     [index_path \<mapsto> ''function getAppJS() { x }'',
      styles_snippet_path \<mapsto> ''function getStylesCSS() { new }'']"

definition repeat_fixture :: text_files where
  "repeat_fixture =
     [index_path \<mapsto> ''function getStylesCSS() { old } function getAppJS() { a } function getStylesCSS() { b }'',
      styles_snippet_path \<mapsto> ''/* new styles */'']"

definition marker_removed_fixture :: text_files where
  "marker_removed_fixture =
     [index_path \<mapsto> ''function getStylesCSS() { old } function getAppJS() { a }'',
      styles_snippet_path \<mapsto> ''/* new styles */'']"

definition no_start_render_fixture :: text_files where
  "no_start_render_fixture =
     [index_path \<mapsto> ''abc async copyLink(url) { x }'',
      render_snippet_path \<mapsto> ''renderLinks() { new }'']"

section \<open>JSON values as Python sees them\<close>

text \<open>
  What \<open>json.load\<close> returns: \<open>None\<close>, a \<open>bool\<close>, an \<open>int\<close>, a \<open>str\<close>, a \<open>list\<close>, or a
  \<open>dict\<close> with string keys, which keeps the order in which keys were inserted. A dict is an
  association list; the operations below are those of a dict on a list without repeated
  keys. Numbers with a fraction or an exponent, which Python reads as floats, are not part
  of the model.
\<close>

datatype json =
  JNull | JBool bool | JInt int | JStr string | JArr "json list"
  | JObj "(string \<times> json) list"

text \<open>
  Python's \<open>==\<close> on these values: \<open>True == 1\<close> and \<open>False == 0\<close>, lists are compared
  element by element, dicts by their keys and values whatever the order.
\<close>

fun py_eq :: "json \<Rightarrow> json \<Rightarrow> bool"
  and py_eq_list :: "json list \<Rightarrow> json list \<Rightarrow> bool"
  and py_eq_items :: "(string \<times> json) list \<Rightarrow> (string \<times> json) list \<Rightarrow> bool" where
  "py_eq JNull y = (y = JNull)"
| "py_eq (JBool b) y =
     (case y of JBool c \<Rightarrow> b = c | JInt i \<Rightarrow> (if b then 1 else 0) = i | _ \<Rightarrow> False)"
| "py_eq (JInt i) y =
     (case y of JBool c \<Rightarrow> i = (if c then 1 else 0) | JInt k \<Rightarrow> i = k | _ \<Rightarrow> False)"
| "py_eq (JStr s) y = (y = JStr s)"
| "py_eq (JArr xs) y = (case y of JArr ys \<Rightarrow> py_eq_list xs ys | _ \<Rightarrow> False)"
| "py_eq (JObj a) y =
     (case y of JObj b \<Rightarrow> length a = length b \<and> py_eq_items a b | _ \<Rightarrow> False)"
| "py_eq_list [] ys = (ys = [])"
| "py_eq_list (x # xs) ys =
     (case ys of [] \<Rightarrow> False | y # ys' \<Rightarrow> py_eq x y \<and> py_eq_list xs ys')"
| "py_eq_items [] b = True"
| "py_eq_items ((k, v) # a) b =
     ((case map_of b k of None \<Rightarrow> False | Some w \<Rightarrow> py_eq v w) \<and> py_eq_items a b)"

text \<open>
  \<open>item in container\<close>: key membership for a dict (the item must be hashable), membership up
  to \<open>==\<close> for a list, substring test for a string (the item must be a string); any other
  container is not iterable.
\<close>

fun py_in :: "json \<Rightarrow> json \<Rightarrow> error + bool" where
  "py_in item (JObj kvs) =
     (case item of
        JStr k \<Rightarrow> Inr (k \<in> set (map fst kvs))
      | JArr _ \<Rightarrow> Inl TypeError
      | JObj _ \<Rightarrow> Inl TypeError
      | _ \<Rightarrow> Inr False)"
| "py_in item (JArr xs) = Inr (list_ex (\<lambda>x. py_eq x item) xs)"
| "py_in item (JStr s) =
     (case item of JStr t \<Rightarrow> Inr (str_find s t \<noteq> - 1) | _ \<Rightarrow> Inl TypeError)"
| "py_in item _ = Inl TypeError"

text \<open>\<open>container[key]\<close> with a string key.\<close>

fun py_getitem :: "json \<Rightarrow> string \<Rightarrow> error + json" where
  "py_getitem (JObj kvs) k = (case map_of kvs k of None \<Rightarrow> Inl KeyError | Some v \<Rightarrow> Inr v)"
| "py_getitem _ k = Inl TypeError"

text \<open>\<open>d[key] = value\<close> on a dict: an existing key keeps its place, a new key goes last.\<close>

fun dict_set :: "string \<Rightarrow> json \<Rightarrow> (string \<times> json) list \<Rightarrow> (string \<times> json) list" where
  "dict_set k v [] = [(k, v)]"
| "dict_set k v ((k', v') # kvs) =
     (if k' = k then (k, v) # kvs else (k', v') # dict_set k v kvs)"

definition dict_del :: "string \<Rightarrow> (string \<times> json) list \<Rightarrow> (string \<times> json) list" where
  "dict_del k kvs = filter (\<lambda>(k', v). k' \<noteq> k) kvs"

text \<open>
  \<open>container.pop(key)\<close> with a string key: a dict gives up the entry; \<open>list.pop\<close> wants an
  integer; nothing else has a \<open>pop\<close>.
\<close>

fun py_pop :: "json \<Rightarrow> string \<Rightarrow> error + (json \<times> json)" where
  "py_pop (JObj kvs) k =
     (case map_of kvs k of None \<Rightarrow> Inl KeyError | Some v \<Rightarrow> Inr (v, JObj (dict_del k kvs)))"
| "py_pop (JArr xs) k = Inl TypeError"
| "py_pop _ k = Inl AttributeError"

text \<open>\<open>container.append(value)\<close>: only a list has it.\<close>

fun py_append :: "json \<Rightarrow> json \<Rightarrow> error + json" where
  "py_append (JArr xs) v = Inr (JArr (xs @ [v]))"
| "py_append _ v = Inl AttributeError"

section \<open>The manifest rewrite of \<^verbatim>\<open>build_firefox_extension.py\<close>\<close>

text \<open>
  Lines 26 to 33 of \<open>build_firefox_zip\<close>, on the value \<open>json.load\<close> returned. The dict is
  changed in place in the source; the model returns the changed manifest, or the exception
  that ends the run.
\<close>

definition set_background :: "json \<Rightarrow> json \<Rightarrow> json" where
  "set_background manifest background =
     (case manifest of JObj kvs \<Rightarrow> JObj (dict_set ''background'' background kvs) | _ \<Rightarrow> manifest)"

definition fix_manifest :: "json \<Rightarrow> error + json" where
  "fix_manifest manifest =
     (case py_in (JStr ''background'') manifest of
        Inl e \<Rightarrow> Inl e
      | Inr False \<Rightarrow> Inr manifest
      | Inr True \<Rightarrow>
     (case py_getitem manifest ''background'' of
        Inl e \<Rightarrow> Inl e
      | Inr background \<Rightarrow>
     (case py_in (JStr ''service_worker'') background of
        Inl e \<Rightarrow> Inl e
      | Inr False \<Rightarrow> Inr manifest
      | Inr True \<Rightarrow>
     (case py_pop background ''service_worker'' of
        Inl e \<Rightarrow> Inl e
      | Inr (sw, background') \<Rightarrow>
     (case py_in (JStr ''scripts'') background' of
        Inl e \<Rightarrow> Inl e
      | Inr False \<Rightarrow>
          (case background' of
             JObj b \<Rightarrow> Inr (set_background manifest
                              (JObj (dict_set ''scripts'' (JArr [sw]) b)))
           | _ \<Rightarrow> Inl TypeError)
      | Inr True \<Rightarrow>
     (case py_getitem background' ''scripts'' of
        Inl e \<Rightarrow> Inl e
      | Inr scripts \<Rightarrow>
     (case py_in sw scripts of
        Inl e \<Rightarrow> Inl e
      | Inr True \<Rightarrow> Inr (set_background manifest background')
      | Inr False \<Rightarrow>
     (case py_append scripts sw of
        Inl e \<Rightarrow> Inl e
      | Inr scripts' \<Rightarrow>
          (case background' of
             JObj b \<Rightarrow> Inr (set_background manifest
                              (JObj (dict_set ''scripts'' scripts' b)))
           | _ \<Rightarrow> Inl TypeError)))))))))"

section \<open>json.dump with indent=4\<close>

text \<open>
  The text \<open>json.dump(manifest, f, indent=4)\<close> writes: the default \<open>ensure_ascii\<close> escapes
  every character outside the printable ASCII range, items are separated by a comma and a
  line break, keys and values by a colon and a space, and every nesting level indents by
  four spaces. A character of the model is a code point below 256.
\<close>

definition hex_digit :: "nat \<Rightarrow> char" where
  "hex_digit n = ''0123456789abcdef'' ! (n mod 16)"

definition escape_char :: "char \<Rightarrow> string" where
  "escape_char c =
     (if c = CHR 0x22 then [backslash, CHR 0x22]
      else if c = backslash then [backslash, backslash]
      else if c = CHR 0x0A then [backslash, CHR ''n'']
      else if c = CHR 0x0D then [backslash, CHR ''r'']
      else if c = CHR 0x09 then [backslash, CHR ''t'']
      else if c = CHR 0x08 then [backslash, CHR ''b'']
      else if c = CHR 0x0C then [backslash, CHR ''f'']
      else if (of_char c :: nat) < 0x20 \<or> (of_char c :: nat) > 0x7E
        then [backslash, CHR ''u'', CHR ''0'', CHR ''0'',
              hex_digit (of_char c div 16), hex_digit (of_char c mod 16)]
      else [c])"

definition encode_string :: "string \<Rightarrow> string" where
  "encode_string s = CHR 0x22 # concat (map escape_char s) @ [CHR 0x22]"

function show_nat :: "nat \<Rightarrow> string" where
  "show_nat n =
     (if n < 10 then [''0123456789'' ! n]
      else show_nat (n div 10) @ [''0123456789'' ! (n mod 10)])"
  by pat_completeness auto
termination
  by (relation "measure (\<lambda>n. n)") auto

definition show_int :: "int \<Rightarrow> string" where
  "show_int i = (if i < 0 then CHR ''-'' # show_nat (nat (- i)) else show_nat (nat i))"

definition newline_indent :: "nat \<Rightarrow> string" where
  "newline_indent level = newline # replicate (4 * level) CHR '' ''"

fun join_with :: "'a list \<Rightarrow> 'a list list \<Rightarrow> 'a list" where
  "join_with s [] = []"
| "join_with s [x] = x"
| "join_with s (x # xs) = x @ s @ join_with s xs"

fun dumps_at :: "nat \<Rightarrow> json \<Rightarrow> string"
  and dumps_elems :: "nat \<Rightarrow> json list \<Rightarrow> string list"
  and dumps_items :: "nat \<Rightarrow> (string \<times> json) list \<Rightarrow> string list" where
  "dumps_at level JNull = ''null''"
| "dumps_at level (JBool b) = (if b then ''true'' else ''false'')"
| "dumps_at level (JInt i) = show_int i"
| "dumps_at level (JStr s) = encode_string s"
| "dumps_at level (JArr xs) =
     (if xs = [] then ''[]''
      else ''['' @ newline_indent (Suc level)
           @ join_with ('','' @ newline_indent (Suc level)) (dumps_elems (Suc level) xs)
           @ newline_indent level @ '']'')"
| "dumps_at level (JObj kvs) =
     (if kvs = [] then ''{}''
      else ''{'' @ newline_indent (Suc level)
           @ join_with ('','' @ newline_indent (Suc level)) (dumps_items (Suc level) kvs)
           @ newline_indent level @ ''}'')"
| "dumps_elems level [] = []"
| "dumps_elems level (x # xs) = dumps_at level x # dumps_elems level xs"
| "dumps_items level [] = []"
| "dumps_items level ((k, v) # kvs) =
     (encode_string k @ '': '' @ dumps_at level v) # dumps_items level kvs"

definition json_dumps :: "json \<Rightarrow> string" where
  "json_dumps v = dumps_at 0 v"

section \<open>The file system seen by the build scripts\<close>

text \<open>
  A directory tree: a file with its text, or a directory listing its entries by name in the
  order \<open>os.scandir\<close> reports them. \<open>shutil.copytree\<close> with its default arguments copies the
  target of every symbolic link, so a staging tree holds regular files and directories
  only. What sits at one of the fixed paths of a script is a tree or a zip archive, the
  latter given by its entries (name and content) in the order they were written.
\<close>

datatype node = File string | Dir "(string \<times> node) list"

datatype entry = Tree node | Archive "(string \<times> string) list"

type_synonym disk = "string \<rightharpoonup> entry"

record run =
  printed :: "string list"
  result :: status
  disk_after :: disk

definition src_dir :: string where
  "src_dir = win_path [''c:'', ''Users'', ''nrame'', ''OneDrive'', ''Desktop'',
     ''Link Sharing App'', ''extension'']"

definition chrome_dist_dir :: string where
  "chrome_dist_dir = win_path [''c:'', ''Users'', ''nrame'', ''OneDrive'', ''Desktop'',
     ''Link Sharing App'', ''chrome_dist'']"

definition chrome_zip_path :: string where
  "chrome_zip_path = win_path [''c:'', ''Users'', ''nrame'', ''OneDrive'', ''Desktop'',
     ''Link Sharing App'', ''kurate-chrome.zip'']"

definition firefox_dist_dir :: string where
  "firefox_dist_dir = win_path [''c:'', ''Users'', ''nrame'', ''OneDrive'', ''Desktop'',
     ''Link Sharing App'', ''firefox_dist'']"

definition firefox_zip_path :: string where
  "firefox_zip_path = win_path [''c:'', ''Users'', ''nrame'', ''OneDrive'', ''Desktop'',
     ''Link Sharing App'', ''kurate-firefox.zip'']"

subsection \<open>shutil and os\<close>

text \<open>
  \<open>shutil.rmtree\<close> removes a directory and raises on anything else; \<open>os.remove\<close> removes
  a file and raises on a directory; \<open>shutil.copytree\<close> wants an existing source directory.
\<close>

definition rmtree :: "string \<Rightarrow> disk \<Rightarrow> error + disk" where
  "rmtree p d =
     (case d p of
        None \<Rightarrow> Inl FileNotFoundError
      | Some (Tree (Dir es)) \<Rightarrow> Inr (d(p := None))
      | Some _ \<Rightarrow> Inl NotADirectoryError)"

definition os_remove :: "string \<Rightarrow> disk \<Rightarrow> error + disk" where
  "os_remove p d =
     (case d p of
        None \<Rightarrow> Inl FileNotFoundError
      | Some (Tree (Dir es)) \<Rightarrow> Inl PermissionError
      | Some _ \<Rightarrow> Inr (d(p := None)))"

definition copytree :: "string \<Rightarrow> string \<Rightarrow> disk \<Rightarrow> error + disk" where
  "copytree src dst d =
     (case d src of
        None \<Rightarrow> Inl FileNotFoundError
      | Some (Tree (Dir es)) \<Rightarrow>
          (if d dst = None then Inr (d(dst \<mapsto> Tree (Dir es))) else Inl FileExistsError)
      | Some _ \<Rightarrow> Inl NotADirectoryError)"

text \<open>The clean-up that opens both scripts (lines 11 to 15).\<close>

definition clean_up :: "string \<Rightarrow> string \<Rightarrow> disk \<Rightarrow> error + disk" where
  "clean_up dist_dir zip_path d =
     (case (if d dist_dir \<noteq> None then rmtree dist_dir d else Inr d) of
        Inl e \<Rightarrow> Inl e
      | Inr d1 \<Rightarrow> (if d1 zip_path \<noteq> None then os_remove zip_path d1 else Inr d1))"

subsection \<open>os.path on Windows paths\<close>

text \<open>
  \<open>os.path.join\<close> of a directory that does not end in a separator and a plain name;
  \<open>os.path.relpath\<close> of two absolute, normalised paths on one drive: both are cut at the
  separators, the common leading components are dropped, and one \<open>..\<close> is put in front for
  every component of the start that is left.
\<close>

definition os_path_join :: "string \<Rightarrow> string \<Rightarrow> string" where
  "os_path_join a b = a @ backslash # b"

fun split_on :: "char \<Rightarrow> string \<Rightarrow> string list" where
  "split_on s [] = [[]]"
| "split_on s (c # cs) =
     (if c = s then [] # split_on s cs
      else (case split_on s cs of [] \<Rightarrow> [[c]] | w # ws \<Rightarrow> (c # w) # ws))"

definition components :: "string \<Rightarrow> string list" where
  "components p = filter (\<lambda>x. x \<noteq> []) (split_on backslash p)"

fun common_prefix_length :: "string list \<Rightarrow> string list \<Rightarrow> nat" where
  "common_prefix_length (a # as) (b # bs) =
     (if a = b then Suc (common_prefix_length as bs) else 0)"
| "common_prefix_length _ _ = 0"

definition os_path_relpath :: "string \<Rightarrow> string \<Rightarrow> string" where
  "os_path_relpath path start =
     (let start_list = components start;
          path_list = components path;
          i = common_prefix_length start_list path_list;
          rel_list = replicate (length start_list - i) ''..'' @ drop i path_list
      in if rel_list = [] then ''.'' else win_path rel_list)"

definition str_replace_char :: "char \<Rightarrow> char \<Rightarrow> string \<Rightarrow> string" where
  "str_replace_char old new s = map (\<lambda>c. if c = old then new else c) s"

subsection \<open>os.walk\<close>

text \<open>
  \<open>os.walk\<close> top down: the directory itself with the names of its subdirectories and of
  its files, then each subdirectory in turn. The file names come with the text of the file,
  which is what \<open>zipf.write(file_path, arcname)\<close> reads from \<open>file_path\<close>.
\<close>

fun dir_names :: "(string \<times> node) list \<Rightarrow> string list" where
  "dir_names [] = []"
| "dir_names ((n, Dir ds) # es) = n # dir_names es"
| "dir_names ((n, File c) # es) = dir_names es"

fun file_names :: "(string \<times> node) list \<Rightarrow> (string \<times> string) list" where
  "file_names [] = []"
| "file_names ((n, File c) # es) = (n, c) # file_names es"
| "file_names ((n, Dir ds) # es) = file_names es"

fun walk :: "string \<Rightarrow> node \<Rightarrow> (string \<times> string list \<times> (string \<times> string) list) list"
  and walk_subdirs :: "string \<Rightarrow> (string \<times> node) list
        \<Rightarrow> (string \<times> string list \<times> (string \<times> string) list) list" where
  "walk root (File c) = []"
| "walk root (Dir es) = (root, dir_names es, file_names es) # walk_subdirs root es"
| "walk_subdirs root [] = []"
| "walk_subdirs root ((n, File c) # es) = walk_subdirs root es"
| "walk_subdirs root ((n, Dir ds) # es) =
     walk (os_path_join root n) (Dir ds) @ walk_subdirs root es"

subsection \<open>The zip loop\<close>

text \<open>
  The loop of lines 24 to 34 of \<open>build_chrome_zip\<close> and of lines 44 to 49 of
  \<open>build_firefox_zip\<close>; the two differ in the test that skips a file, which is the
  parameter \<open>skip\<close>. An archive takes an entry under the name it is given: the names
  built here are relative and normalised, which is all \<open>zipfile\<close> would change.
\<close>

definition arcname :: "string \<Rightarrow> string \<Rightarrow> string \<Rightarrow> string" where
  "arcname dist_dir root file =
     str_replace_char backslash CHR ''/''
       (os_path_relpath (os_path_join root file) dist_dir)"

fun zip_files :: "(string \<Rightarrow> bool) \<Rightarrow> string \<Rightarrow> string \<Rightarrow> (string \<times> string) list
    \<Rightarrow> (string \<times> string) list" where
  "zip_files skip dist_dir root [] = []"
| "zip_files skip dist_dir root ((file, content) # rest) =
     (if skip file then zip_files skip dist_dir root rest
      else (arcname dist_dir root file, content) # zip_files skip dist_dir root rest)"

fun zip_walk :: "(string \<Rightarrow> bool) \<Rightarrow> string
    \<Rightarrow> (string \<times> string list \<times> (string \<times> string) list) list \<Rightarrow> (string \<times> string) list" where
  "zip_walk skip dist_dir [] = []"
| "zip_walk skip dist_dir ((root, dirs, names) # rest) =
     zip_files skip dist_dir root names @ zip_walk skip dist_dir rest"

definition make_zip :: "(string \<Rightarrow> bool) \<Rightarrow> string \<Rightarrow> node \<Rightarrow> (string \<times> string) list" where
  "make_zip skip dist_dir tree = zip_walk skip dist_dir (walk dist_dir tree)"

definition ends_with_md :: "string \<Rightarrow> bool" where
  "ends_with_md file = suffix ''.md'' file"

definition skip_nothing :: "string \<Rightarrow> bool" where
  "skip_nothing file = False"

section \<open>The Chrome build script (\<^verbatim>\<open>build_chrome_extension.py\<close>)\<close>

text \<open>
  Clean up, copy the source tree, write the archive from a walk of the staging directory
  (\<open>os.walk\<close> yields nothing for a path that is not a directory), remove the staging
  directory, report.
\<close>

definition success_message :: "string \<Rightarrow> string" where
  "success_message zip_path = ''Successfully created '' @ zip_path"

definition build_chrome_zip :: "disk \<Rightarrow> run" where
  "build_chrome_zip d =
     (case clean_up chrome_dist_dir chrome_zip_path d of
        Inl e \<Rightarrow> \<lparr>printed = [], result = Raised e, disk_after = d\<rparr>
      | Inr d1 \<Rightarrow>
     (case copytree src_dir chrome_dist_dir d1 of
        Inl e \<Rightarrow> \<lparr>printed = [], result = Raised e, disk_after = d1\<rparr>
      | Inr d2 \<Rightarrow>
     (let entries = (case d2 chrome_dist_dir of
                       Some (Tree tree) \<Rightarrow> make_zip ends_with_md chrome_dist_dir tree
                     | _ \<Rightarrow> []);
          d3 = d2(chrome_zip_path \<mapsto> Archive entries)
      in case rmtree chrome_dist_dir d3 of
           Inl e \<Rightarrow> \<lparr>printed = [], result = Raised e, disk_after = d3\<rparr>
         | Inr d4 \<Rightarrow> \<lparr>printed = [success_message chrome_zip_path],
                      result = Completed, disk_after = d4\<rparr>)))"

section \<open>The Firefox build script (\<^verbatim>\<open>build_firefox_extension.py\<close>)\<close>

text \<open>
  Lines 20 to 40: read \<open>manifest.json\<close> at the root of the staging tree, decode it,
  rewrite the background section, and write the manifest back. The decoder \<open>json.load\<close> is
  a parameter: it gives the decoded value or raises.
\<close>

fun lookup_entry :: "string \<Rightarrow> (string \<times> node) list \<Rightarrow> node option" where
  "lookup_entry n [] = None"
| "lookup_entry n ((n', x) # es) = (if n' = n then Some x else lookup_entry n es)"

fun write_file :: "string \<Rightarrow> string \<Rightarrow> (string \<times> node) list \<Rightarrow> (string \<times> node) list" where
  "write_file n text [] = [(n, File text)]"
| "write_file n text ((n', x) # es) =
     (if n' = n then (n, File text) # es else (n', x) # write_file n text es)"

definition rewrite_manifest :: "(string \<Rightarrow> error + json) \<Rightarrow> node \<Rightarrow> error + node" where
  "rewrite_manifest json_load tree =
     (case tree of
        File c \<Rightarrow> Inl NotADirectoryError
      | Dir es \<Rightarrow>
     (case lookup_entry ''manifest.json'' es of
        None \<Rightarrow> Inl FileNotFoundError
      | Some (Dir ds) \<Rightarrow> Inl PermissionError
      | Some (File text) \<Rightarrow>
     (case json_load text of
        Inl e \<Rightarrow> Inl e
      | Inr manifest \<Rightarrow>
     (case fix_manifest manifest of
        Inl e \<Rightarrow> Inl e
      | Inr manifest' \<Rightarrow>
          Inr (Dir (write_file ''manifest.json'' (json_dumps manifest') es))))))"

text \<open>
  The script: clean up, copy the source tree, rewrite the manifest of the staging
  directory (opening it fails when the staging directory is not there), write the archive
  from a walk of the staging directory, remove the staging directory, report.
\<close>

definition build_firefox_zip :: "(string \<Rightarrow> error + json) \<Rightarrow> disk \<Rightarrow> run" where
  "build_firefox_zip json_load d =
     (case clean_up firefox_dist_dir firefox_zip_path d of
        Inl e \<Rightarrow> \<lparr>printed = [], result = Raised e, disk_after = d\<rparr>
      | Inr d1 \<Rightarrow>
     (case copytree src_dir firefox_dist_dir d1 of
        Inl e \<Rightarrow> \<lparr>printed = [], result = Raised e, disk_after = d1\<rparr>
      | Inr d2 \<Rightarrow>
     (case d2 firefox_dist_dir of
        Some (Tree tree) \<Rightarrow>
          (case rewrite_manifest json_load tree of
             Inl e \<Rightarrow> \<lparr>printed = [], result = Raised e, disk_after = d2\<rparr>
           | Inr tree' \<Rightarrow>
               (let d3 = d2(firefox_dist_dir \<mapsto> Tree tree');
                    d4 = d3(firefox_zip_path \<mapsto>
                           Archive (make_zip skip_nothing firefox_dist_dir tree'))
                in case rmtree firefox_dist_dir d4 of
                     Inl e \<Rightarrow> \<lparr>printed = [], result = Raised e, disk_after = d4\<rparr>
                   | Inr d5 \<Rightarrow> \<lparr>printed = [success_message firefox_zip_path],
                                result = Completed, disk_after = d5\<rparr>))
      | _ \<Rightarrow> \<lparr>printed = [], result = Raised FileNotFoundError, disk_after = d2\<rparr>)))"

section \<open>What the specification speaks of\<close>

text \<open>
  The files under a tree, each with its path relative to the root as a list of names, and
  the directories under it. A name of the host file system is not empty, is neither
  \<open>.\<close> nor \<open>..\<close>, and holds no separator and no colon; the names within one directory
  differ.
\<close>

fun files_of :: "node \<Rightarrow> (string list \<times> string) list"
  and files_in :: "(string \<times> node) list \<Rightarrow> (string list \<times> string) list" where
  "files_of (File c) = []"
| "files_of (Dir es) = files_in es"
| "files_in [] = []"
| "files_in ((n, File c) # es) = ([n], c) # files_in es"
| "files_in ((n, Dir ds) # es) = map (\<lambda>(p, c). (n # p, c)) (files_in ds) @ files_in es"

fun dirs_of :: "node \<Rightarrow> string list list"
  and dirs_in :: "(string \<times> node) list \<Rightarrow> string list list" where
  "dirs_of (File c) = []"
| "dirs_of (Dir es) = dirs_in es"
| "dirs_in [] = []"
| "dirs_in ((n, File c) # es) = dirs_in es"
| "dirs_in ((n, Dir ds) # es) = [n] # map (\<lambda>p. n # p) (dirs_in ds) @ dirs_in es"

definition valid_name :: "string \<Rightarrow> bool" where
  "valid_name n \<longleftrightarrow>
     n \<noteq> [] \<and> n \<noteq> ''.'' \<and> n \<noteq> ''..''
     \<and> backslash \<notin> set n \<and> CHR ''/'' \<notin> set n \<and> CHR '':'' \<notin> set n"

fun wf_node :: "node \<Rightarrow> bool"
  and wf_entries :: "(string \<times> node) list \<Rightarrow> bool" where
  "wf_node (File c) = True"
| "wf_node (Dir es) = wf_entries es"
| "wf_entries [] = True"
| "wf_entries ((n, x) # es) =
     (valid_name n \<and> n \<notin> set (map fst es) \<and> wf_node x \<and> wf_entries es)"

definition slash_join :: "string list \<Rightarrow> string" where
  "slash_join p = join_with ''/'' p"

text \<open>The entries the specification expects of an archive built with a given exclusion.\<close>

definition expected_entries :: "(string \<Rightarrow> bool) \<Rightarrow> node \<Rightarrow> (string \<times> string) list" where
  "expected_entries skip tree =
     map (\<lambda>(p, c). (slash_join p, c)) (filter (\<lambda>(p, c). \<not> skip (last p)) (files_of tree))"

text \<open>The files of the subdirectories of a listing, which the walk reaches after the listing's own files.\<close>

fun nested_files :: "(string \<times> node) list \<Rightarrow> (string list \<times> string) list" where
  "nested_files [] = []"
| "nested_files ((n, File c) # es) = nested_files es"
| "nested_files ((n, Dir ds) # es) =
     map (\<lambda>(p, c). (n # p, c)) (files_in ds) @ nested_files es"

text \<open>
  An archive that holds regular files only: every entry is a file of the tree under its
  path, and no directory of the tree has an entry, with or without the trailing slash that
  marks a directory entry of a zip archive.
\<close>

definition files_only :: "node \<Rightarrow> (string \<times> string) list \<Rightarrow> bool" where
  "files_only tree entries \<longleftrightarrow>
     (\<forall>(name, c)\<in>set entries. \<exists>p. (p, c) \<in> set (files_of tree) \<and> name = slash_join p)
     \<and> (\<forall>dir\<in>set (dirs_of tree).
           slash_join dir \<notin> fst ` set entries \<and> slash_join dir @ ''/'' \<notin> fst ` set entries)"

text \<open>
  A rewritten manifest that differs from the decoded one in the background section only:
  the same keys in the same order, and every entry whose key is not \<open>background\<close> as it
  was.
\<close>

definition background_only :: "json \<Rightarrow> json \<Rightarrow> bool" where
  "background_only manifest manifest' \<longleftrightarrow>
     (case manifest of
        JObj kvs \<Rightarrow>
          (\<exists>kvs'. manifest' = JObj kvs' \<and> map fst kvs' = map fst kvs
             \<and> (\<forall>i<length kvs. fst (kvs ! i) \<noteq> ''background'' \<longrightarrow> kvs' ! i = kvs ! i))
      | _ \<Rightarrow> manifest' = manifest)"

text \<open>
  The outcome the specification asks of the manifest rewrite, for a manifest \<open>m\<close> whose
  background section is \<open>b\<close>: the rewrite succeeds, the new background section has no
  \<open>service_worker\<close> key and has the given value under \<open>scripts\<close>, and every other key
  of the section and of the manifest is as before.
\<close>

definition moved_to_scripts ::
    "(string \<times> json) list \<Rightarrow> (string \<times> json) list \<Rightarrow> json \<Rightarrow> error + json \<Rightarrow> bool" where
  "moved_to_scripts m b scripts' r \<longleftrightarrow>
     (\<exists>m' b'. r = Inr (JObj m')
        \<and> map_of m' ''background'' = Some (JObj b')
        \<and> map_of b' ''service_worker'' = None
        \<and> map_of b' ''scripts'' = Some scripts'
        \<and> (\<forall>k. k \<noteq> ''service_worker'' \<and> k \<noteq> ''scripts'' \<longrightarrow> map_of b' k = map_of b k)
        \<and> (\<forall>k. k \<noteq> ''background'' \<longrightarrow> map_of m' k = map_of m k))"

section \<open>Fixtures of the build scripts\<close>

text \<open>
  A source tree with a manifest, an icon, a readme and a subdirectory that holds a file and
  an empty directory; the value \<open>json.load\<close> gives on the manifest of that tree; and a tree
  whose manifest does not decode.
\<close>

definition sample_manifest_text :: string where
  \<open>sample_manifest_text =
     ''{"manifest_version": 3, "background": {"service_worker": "bg.js"}}''\<close>

definition sample_manifest :: json where
  "sample_manifest =
     JObj [(''manifest_version'', JInt 3),
           (''background'', JObj [(''service_worker'', JStr ''bg.js'')])]"

definition sample_load :: "string \<Rightarrow> error + json" where
  "sample_load text =
     (if text = sample_manifest_text then Inr sample_manifest else Inl JSONDecodeError)"

definition sample_tree :: node where
  "sample_tree =
     Dir [(''manifest.json'', File sample_manifest_text),
          (''icon.png'', File ''PNG''),
          (''README.md'', File ''# Kurate''),
          (''icons'', Dir [(''a.png'', File ''A''), (''empty'', Dir [])])]"

definition sample_disk :: disk where
  "sample_disk = [src_dir \<mapsto> Tree sample_tree]"

definition broken_disk :: disk where
  "broken_disk = [src_dir \<mapsto> Tree (Dir [(''manifest.json'', File ''not json'')])]"

text \<open>
  A manifest without a background section whose name holds a character beyond ASCII,
  laid out exactly as \<open>json.dump\<close> with \<open>indent=4\<close> lays a manifest out.
\<close>

definition cafe_manifest_text :: string where
  \<open>cafe_manifest_text = ''{\<newline>    "name": "Caf'' @ [CHR 0xE9] @ ''"\<newline>}''\<close>

definition cafe_manifest :: json where
  "cafe_manifest = JObj [(''name'', JStr (''Caf'' @ [CHR 0xE9]))]"

definition cafe_load :: "string \<Rightarrow> error + json" where
  "cafe_load text =
     (if text = cafe_manifest_text then Inr cafe_manifest else Inl JSONDecodeError)"

definition cafe_disk :: disk where
  "cafe_disk = [src_dir \<mapsto> Tree (Dir [(''manifest.json'', File cafe_manifest_text)])]"

definition cafe_archived_text :: string where
  \<open>cafe_archived_text =
     ''{\<newline>    "name": "Caf'' @ [CHR 0x5C] @ ''u00e9"\<newline>}''\<close>

section \<open>Properties of the string primitives\<close>

lemma find_from_range:
  "find_from i s sub = - 1
   \<or> (int i \<le> find_from i s sub \<and> find_from i s sub \<le> int (i + length s))"
proof (induction s arbitrary: i)
  case Nil
  then show ?case by simp
next
  case (Cons c cs)
  from Cons.IH [of "Suc i"] show ?case by auto
qed

lemma all_less_Suc_shift: "(\<forall>j<Suc k. P j) \<longleftrightarrow> P 0 \<and> (\<forall>j<k. P (Suc j))"
  by (auto simp: less_Suc_eq_0_disj)

lemma all_le_Suc_shift: "(\<forall>j\<le>Suc k. P j) \<longleftrightarrow> P 0 \<and> (\<forall>j\<le>k. P (Suc j))"
  using all_less_Suc_shift [of "Suc k" P] by (simp add: less_Suc_eq_le)

text \<open>\<open>find_from\<close> returns the offset of the first occurrence, counted from \<open>i\<close>.\<close>

lemma find_from_pos:
  "find_from i s sub = int i + int k \<longleftrightarrow>
     k \<le> length s \<and> prefix sub (drop k s) \<and> (\<forall>j<k. \<not> prefix sub (drop j s))"
proof (induction s arbitrary: i k)
  case Nil
  then show ?case by auto
next
  case (Cons c cs)
  show ?case
  proof (cases "prefix sub (c # cs)")
    case True
    then show ?thesis by (cases k) auto
  next
    case False
    show ?thesis
    proof (cases k)
      case 0
      have "find_from (Suc i) cs sub \<noteq> int i"
        using find_from_range [of "Suc i" cs sub] by auto
      with False 0 show ?thesis by simp
    next
      case (Suc k')
      have "find_from (Suc i) cs sub = int (Suc i) + int k' \<longleftrightarrow>
              k' \<le> length cs \<and> prefix sub (drop k' cs)
              \<and> (\<forall>j<k'. \<not> prefix sub (drop j cs))"
        by (rule Cons.IH)
      moreover have "int (Suc i) + int k' = int i + int (Suc k')" by simp
      ultimately have "find_from (Suc i) cs sub = int i + int (Suc k') \<longleftrightarrow>
              k' \<le> length cs \<and> prefix sub (drop k' cs)
              \<and> (\<forall>j<k'. \<not> prefix sub (drop j cs))"
        by metis
      with False show ?thesis unfolding Suc
        by (simp add: all_less_Suc_shift del: of_nat_Suc)
    qed
  qed
qed

lemma find_from_neg:
  "find_from i s sub = - 1 \<longleftrightarrow> (\<forall>k\<le>length s. \<not> prefix sub (drop k s))"
proof (induction s arbitrary: i)
  case Nil
  then show ?case by auto
next
  case (Cons c cs)
  have "find_from (Suc i) cs sub \<noteq> int i"
    using find_from_range [of "Suc i" cs sub] by auto
  with Cons.IH [of "Suc i"] show ?case by (simp add: all_le_Suc_shift)
qed

lemma str_find_pos:
  "str_find s sub = int k \<longleftrightarrow>
     k \<le> length s \<and> prefix sub (drop k s) \<and> (\<forall>j<k. \<not> prefix sub (drop j s))"
  using find_from_pos [of 0 s sub k] by (simp add: str_find_def)

lemma str_find_neg:
  "str_find s sub = - 1 \<longleftrightarrow> (\<forall>k\<le>length s. \<not> prefix sub (drop k s))"
  by (simp add: str_find_def find_from_neg)

lemma str_find_cases: "str_find s sub = - 1 \<or> (\<exists>k. str_find s sub = int k)"
proof -
  have "find_from 0 s sub = - 1 \<or> 0 \<le> find_from 0 s sub"
    using find_from_range [of 0 s sub] by auto
  then show ?thesis unfolding str_find_def
    by (auto dest: nonneg_int_cases)
qed

lemma str_find_le_length: "str_find s sub = int k \<Longrightarrow> k \<le> length s"
  by (simp add: str_find_pos)

lemma str_find_occurs: "str_find s sub = int k \<Longrightarrow> prefix sub (drop k s)"
  by (simp add: str_find_pos)

lemma paths_distinct:
  "index_path \<noteq> styles_snippet_path" "index_path \<noteq> render_snippet_path"
  "styles_snippet_path \<noteq> index_path" "render_snippet_path \<noteq> index_path"
  by code_simp+

section \<open>The patch scripts\<close>

lemma splice_expression:
  assumes "i \<le> length B"
  shows "splice_property B i j R sep (slice_to B (int i) @ R @ sep @ slice_from B (int j))"
  using assms by (simp add: splice_property_def slice_to_def slice_from_def)

text \<open>
  Claim C3. For every buffer \<open>B\<close> in which the start marker is located at \<open>i\<close> and the end
  marker at \<open>j\<close> with \<open>i \<le> j\<close>, and every replacement \<open>R\<close>, the buffer written by either
  script agrees with \<open>B\<close> on the first \<open>i\<close> characters, holds \<open>R\<close> in the next
  \<open>length R\<close> characters, and from \<open>i + length R + length separator\<close> on is \<open>B\<close> from \<open>j\<close>
  on, the separator being the one of the call site.
\<close>

theorem splice_keeps_prefix_and_tail:
  "(fs index_path = Some B \<and> fs styles_snippet_path = Some R
      \<and> str_find B styles_start_marker = int i \<and> str_find B styles_end_marker = int j
      \<and> i \<le> j
    \<longrightarrow> (\<exists>N. files (update_index fs) index_path = Some N
            \<and> splice_property B i j R styles_separator N))
   \<and> (fs index_path = Some B \<and> fs render_snippet_path = Some R
      \<and> str_find B render_start_marker = int i \<and> str_find B render_end_marker = int j
      \<and> i \<le> j
    \<longrightarrow> (\<exists>N. files (update_js fs) index_path = Some N
            \<and> splice_property B i j R render_separator N))"
proof (intro conjI impI)
  assume a: "fs index_path = Some B \<and> fs styles_snippet_path = Some R
      \<and> str_find B styles_start_marker = int i \<and> str_find B styles_end_marker = int j
      \<and> i \<le> j"
  then have "i \<le> length B" by (auto dest: str_find_le_length)
  then have "splice_property B i j R styles_separator
               (slice_to B (int i) @ R @ styles_separator @ slice_from B (int j))"
    by (rule splice_expression)
  with a show "\<exists>N. files (update_index fs) index_path = Some N
            \<and> splice_property B i j R styles_separator N"
    by (simp add: update_index_def)
next
  assume a: "fs index_path = Some B \<and> fs render_snippet_path = Some R
      \<and> str_find B render_start_marker = int i \<and> str_find B render_end_marker = int j
      \<and> i \<le> j"
  then have "i \<le> length B" by (auto dest: str_find_le_length)
  then have "splice_property B i j R render_separator
               (slice_to B (int i) @ R @ render_separator @ slice_from B (int j))"
    by (rule splice_expression)
  with a show "\<exists>N. files (update_js fs) index_path = Some N
            \<and> splice_property B i j R render_separator N"
    by (simp add: update_js_def render_write_def)
qed

theorem splice_keeps_prefix_and_tail_witness:
  "(\<exists>N. files (update_index styles_fixture) index_path = Some N
      \<and> splice_property
           ''/* a */ function getStylesCSS() { old } function getAppJS() { x }'' 8 40
           ''function getStylesCSS() { new }'' styles_separator N)
   \<and> (\<exists>N. files (update_js render_fixture) index_path = Some N
      \<and> splice_property ''  renderLinks() { old } async copyLink(url) { x }'' 2 24
           ''renderLinks() { new }'' render_separator N)"
proof -
  have a: "str_find ''/* a */ function getStylesCSS() { old } function getAppJS() { x }''
             styles_start_marker = int 8"
    by code_simp
  have b: "str_find ''/* a */ function getStylesCSS() { old } function getAppJS() { x }''
             styles_end_marker = int 40"
    by code_simp
  have c: "str_find ''  renderLinks() { old } async copyLink(url) { x }''
             render_start_marker = int 2"
    by code_simp
  have d: "str_find ''  renderLinks() { old } async copyLink(url) { x }''
             render_end_marker = int 24"
    by code_simp
  have e: "styles_fixture index_path
             = Some ''/* a */ function getStylesCSS() { old } function getAppJS() { x }''"
     "styles_fixture styles_snippet_path = Some ''function getStylesCSS() { new }''"
     "render_fixture index_path = Some ''  renderLinks() { old } async copyLink(url) { x }''"
     "render_fixture render_snippet_path = Some ''renderLinks() { new }''"
    by (simp_all add: styles_fixture_def render_fixture_def paths_distinct)
  show ?thesis
    using splice_keeps_prefix_and_tail [of styles_fixture
        "''/* a */ function getStylesCSS() { old } function getAppJS() { x }''"
        "''function getStylesCSS() { new }''" 8 40]
      splice_keeps_prefix_and_tail [of render_fixture
        "''  renderLinks() { old } async copyLink(url) { x }''"
        "''renderLinks() { new }''" 2 24]
      a b c d e
    by simp
qed

text \<open>
  Claim C1, as stated, fails at the renderLinks script: with the start marker present and
  the end marker \<open>async copyLink(url) {\<close> absent, the run that finds \<open>copyLink(url) {\<close>
  does not stop; it completes and rewrites the source file.
\<close>

theorem missing_marker_counterexample:
  "fallback_fixture index_path = Some ''renderLinks() { old } copyLink(url) { x }''
   \<and> str_find ''renderLinks() { old } copyLink(url) { x }'' render_end_marker = - 1
   \<and> status (update_js fallback_fixture) = Completed
   \<and> files (update_js fallback_fixture) index_path
       = Some (''renderLinks() { new }'' @ render_separator @ ''copyLink(url) { x }'')
   \<and> files (update_js fallback_fixture) index_path \<noteq> fallback_fixture index_path"
proof -
  have a: "fallback_fixture index_path = Some ''renderLinks() { old } copyLink(url) { x }''"
    "fallback_fixture render_snippet_path = Some ''renderLinks() { new }''"
    by (simp_all add: fallback_fixture_def paths_distinct)
  have b: "str_find ''renderLinks() { old } copyLink(url) { x }'' render_end_marker = - 1"
    by code_simp
  have c: "str_find ''renderLinks() { old } copyLink(url) { x }'' render_start_marker = 0"
    by code_simp
  have d: "str_find ''renderLinks() { old } copyLink(url) { x }'' render_loose_end_marker = 22"
    by code_simp
  show ?thesis
    by (simp add: a b c d update_js_def render_write_def slice_to_def slice_from_def
          render_separator_def)
qed

text \<open>
  Claim C1, amended. In the getStylesCSS script, if the start marker or the end marker is
  absent from the buffer, the run prints the error message, exits with status 1 and leaves
  every file as it was. In the renderLinks script the same holds when the end marker is
  absent in both its forms, \<open>async copyLink(url) {\<close> and \<open>copyLink(url) {\<close>.
\<close>

theorem missing_marker_halts:
  "(fs index_path = Some content \<and> fs styles_snippet_path = Some snippet
      \<and> (str_find content styles_start_marker = - 1
           \<or> str_find content styles_end_marker = - 1)
     \<longrightarrow> update_index fs = \<lparr>stdout = [''Error: Could not find markers''],
                              status = SystemExit 1, files = fs\<rparr>)
   \<and> (fs index_path = Some content \<and> fs render_snippet_path = Some snippet
      \<and> str_find content render_end_marker = - 1
      \<and> str_find content render_loose_end_marker = - 1
     \<longrightarrow> hd (stdout (update_js fs)) = ''Error: Could not find markers''
         \<and> status (update_js fs) = SystemExit 1 \<and> files (update_js fs) = fs)"
  by (auto simp: update_index_def update_js_def)

theorem missing_marker_halts_witness:
  "update_index no_start_styles_fixture
     = \<lparr>stdout = [''Error: Could not find markers''], status = SystemExit 1,
        files = no_start_styles_fixture\<rparr>
   \<and> hd (stdout (update_js no_end_fixture)) = ''Error: Could not find markers''
   \<and> status (update_js no_end_fixture) = SystemExit 1
   \<and> files (update_js no_end_fixture) = no_end_fixture"
proof -
  have a: "no_start_styles_fixture index_path = Some ''function getAppJS() { x }''"
    "no_start_styles_fixture styles_snippet_path = Some ''function getStylesCSS() { new }''"
    "no_end_fixture index_path = Some ''renderLinks() { old } shareLink(url) { x }''"
    "no_end_fixture render_snippet_path = Some ''renderLinks() { new }''"
    by (simp_all add: no_start_styles_fixture_def no_end_fixture_def paths_distinct)
  have b: "str_find ''function getAppJS() { x }'' styles_start_marker = - 1"
    by code_simp
  have c: "str_find ''renderLinks() { old } shareLink(url) { x }'' render_end_marker = - 1"
    by code_simp
  have d: "str_find ''renderLinks() { old } shareLink(url) { x }'' render_loose_end_marker = - 1"
    by code_simp
  show ?thesis
    using missing_marker_halts [of no_start_styles_fixture "''function getAppJS() { x }''"
        "''function getStylesCSS() { new }''"]
      missing_marker_halts [of no_end_fixture "''renderLinks() { old } shareLink(url) { x }''"
        "''renderLinks() { new }''"]
      a b c d
    by simp
qed

text \<open>
  When only the start marker is absent, the renderLinks script prints the error lines and
  goes on to the splice: \<open>content[:-1]\<close> is the buffer without its last character, and
  the file is rewritten.
\<close>

lemma start_marker_absent_run:
  "str_find ''abc async copyLink(url) { x }'' render_start_marker = - 1
   \<and> stdout (update_js no_start_render_fixture)
       = [''Error: Could not find markers'', ''Start found: False'', ''End found: True'',
          ''Successfully updated renderLinks in index.js'']
   \<and> status (update_js no_start_render_fixture) = Completed
   \<and> files (update_js no_start_render_fixture) index_path
       = Some (''abc async copyLink(url) { x '' @ ''renderLinks() { new }'' @ render_separator
                @ ''async copyLink(url) { x }'')"
proof -
  have a: "no_start_render_fixture index_path = Some ''abc async copyLink(url) { x }''"
    "no_start_render_fixture render_snippet_path = Some ''renderLinks() { new }''"
    by (simp_all add: no_start_render_fixture_def paths_distinct)
  have b: "str_find ''abc async copyLink(url) { x }'' render_start_marker = - 1"
    by code_simp
  have c: "str_find ''abc async copyLink(url) { x }'' render_end_marker = 4"
    by code_simp
  show ?thesis
    by (simp add: a b c update_js_def render_write_def slice_to_def slice_from_def
          render_separator_def py_bool_def)
qed

text \<open>
  Claim C9. In the renderLinks script, when the strict end marker \<open>async copyLink(url) {\<close>
  is not found the locator searches for \<open>copyLink(url) {\<close>; the run exits with a non-zero
  status only if that marker is absent too, and otherwise the written buffer ends with the
  old buffer from the end marker that was found, which is therefore retained.
\<close>

theorem loose_end_marker_fallback:
  "fs index_path = Some content \<and> fs render_snippet_path = Some new_func \<longrightarrow>
   (str_find content render_end_marker = - 1 \<and> str_find content render_loose_end_marker = - 1
      \<longrightarrow> status (update_js fs) = SystemExit 1 \<and> files (update_js fs) = fs)
   \<and> (str_find content render_end_marker = - 1 \<and> str_find content render_loose_end_marker = int j
      \<longrightarrow> status (update_js fs) = Completed
          \<and> files (update_js fs) index_path
              = Some (slice_to content (str_find content render_start_marker) @ new_func
                       @ render_separator @ drop j content)
          \<and> prefix render_loose_end_marker (drop j content))
   \<and> (str_find content render_end_marker = int j
      \<longrightarrow> status (update_js fs) = Completed
          \<and> files (update_js fs) index_path
              = Some (slice_to content (str_find content render_start_marker) @ new_func
                       @ render_separator @ drop j content)
          \<and> prefix render_end_marker (drop j content))
   \<and> ((\<exists>n. status (update_js fs) = SystemExit n \<and> n \<noteq> 0)
      \<longrightarrow> str_find content render_end_marker = - 1
          \<and> str_find content render_loose_end_marker = - 1)"
proof (intro impI)
  assume a: "fs index_path = Some content \<and> fs render_snippet_path = Some new_func"
  have both: "str_find content render_end_marker = - 1 \<and> str_find content render_loose_end_marker = - 1
      \<longrightarrow> status (update_js fs) = SystemExit 1 \<and> files (update_js fs) = fs"
    using a by (simp add: update_js_def)
  have loose: "str_find content render_end_marker = - 1 \<and> str_find content render_loose_end_marker = int j
      \<longrightarrow> status (update_js fs) = Completed
          \<and> files (update_js fs) index_path
              = Some (slice_to content (str_find content render_start_marker) @ new_func
                       @ render_separator @ drop j content)
          \<and> prefix render_loose_end_marker (drop j content)"
    using a by (auto simp: update_js_def render_write_def slice_from_def Let_def dest: str_find_occurs)
  have strict: "str_find content render_end_marker = int j
      \<longrightarrow> status (update_js fs) = Completed
          \<and> files (update_js fs) index_path
              = Some (slice_to content (str_find content render_start_marker) @ new_func
                       @ render_separator @ drop j content)
          \<and> prefix render_end_marker (drop j content)"
    using a by (auto simp: update_js_def render_write_def slice_from_def Let_def dest: str_find_occurs)
  have only_if: "(\<exists>n. status (update_js fs) = SystemExit n \<and> n \<noteq> 0)
      \<longrightarrow> str_find content render_end_marker = - 1
          \<and> str_find content render_loose_end_marker = - 1"
    using a by (auto simp: update_js_def render_write_def Let_def split: if_splits)
  from both loose strict only_if
  show "(str_find content render_end_marker = - 1 \<and> str_find content render_loose_end_marker = - 1
      \<longrightarrow> status (update_js fs) = SystemExit 1 \<and> files (update_js fs) = fs)
   \<and> (str_find content render_end_marker = - 1 \<and> str_find content render_loose_end_marker = int j
      \<longrightarrow> status (update_js fs) = Completed
          \<and> files (update_js fs) index_path
              = Some (slice_to content (str_find content render_start_marker) @ new_func
                       @ render_separator @ drop j content)
          \<and> prefix render_loose_end_marker (drop j content))
   \<and> (str_find content render_end_marker = int j
      \<longrightarrow> status (update_js fs) = Completed
          \<and> files (update_js fs) index_path
              = Some (slice_to content (str_find content render_start_marker) @ new_func
                       @ render_separator @ drop j content)
          \<and> prefix render_end_marker (drop j content))
   \<and> ((\<exists>n. status (update_js fs) = SystemExit n \<and> n \<noteq> 0)
      \<longrightarrow> str_find content render_end_marker = - 1
          \<and> str_find content render_loose_end_marker = - 1)"
    by blast
qed

theorem loose_end_marker_fallback_witness:
  "status (update_js no_end_fixture) = SystemExit 1
   \<and> files (update_js no_end_fixture) = no_end_fixture
   \<and> str_find ''renderLinks() { old } shareLink(url) { x }'' render_loose_end_marker = - 1
   \<and> status (update_js fallback_fixture) = Completed
   \<and> files (update_js fallback_fixture) index_path
       = Some (''renderLinks() { new }'' @ render_separator @ ''copyLink(url) { x }'')
   \<and> prefix render_loose_end_marker ''copyLink(url) { x }''
   \<and> status (update_js render_fixture) = Completed
   \<and> files (update_js render_fixture) index_path
       = Some (''  renderLinks() { new }'' @ render_separator @ ''async copyLink(url) { x }'')
   \<and> prefix render_end_marker ''async copyLink(url) { x }''"
proof -
  have fx: "no_end_fixture index_path = Some ''renderLinks() { old } shareLink(url) { x }''"
    "no_end_fixture render_snippet_path = Some ''renderLinks() { new }''"
    "fallback_fixture index_path = Some ''renderLinks() { old } copyLink(url) { x }''"
    "fallback_fixture render_snippet_path = Some ''renderLinks() { new }''"
    "render_fixture index_path = Some ''  renderLinks() { old } async copyLink(url) { x }''"
    "render_fixture render_snippet_path = Some ''renderLinks() { new }''"
    by (simp_all add: no_end_fixture_def fallback_fixture_def render_fixture_def
          paths_distinct)
  have a: "str_find ''renderLinks() { old } shareLink(url) { x }'' render_end_marker = - 1"
    by code_simp
  have b: "str_find ''renderLinks() { old } shareLink(url) { x }'' render_loose_end_marker = - 1"
    by code_simp
  have c: "str_find ''renderLinks() { old } copyLink(url) { x }'' render_end_marker = - 1"
    by code_simp
  have d: "str_find ''renderLinks() { old } copyLink(url) { x }'' render_loose_end_marker
             = int 22"
    by code_simp
  have e: "str_find ''renderLinks() { old } copyLink(url) { x }'' render_start_marker = 0"
    by code_simp
  have f: "str_find ''  renderLinks() { old } async copyLink(url) { x }'' render_end_marker
             = int 24"
    by code_simp
  have g: "str_find ''  renderLinks() { old } async copyLink(url) { x }'' render_start_marker
             = 2"
    by code_simp
  have h: "status (update_js no_end_fixture) = SystemExit 1
           \<and> files (update_js no_end_fixture) = no_end_fixture"
    using loose_end_marker_fallback [of no_end_fixture
        "''renderLinks() { old } shareLink(url) { x }''" "''renderLinks() { new }''" 0]
      fx a b by simp
  then have "\<exists>n. status (update_js no_end_fixture) = SystemExit n \<and> n \<noteq> 0"
    by simp
  then have i: "str_find ''renderLinks() { old } shareLink(url) { x }''
                  render_loose_end_marker = - 1"
    using loose_end_marker_fallback [of no_end_fixture
        "''renderLinks() { old } shareLink(url) { x }''" "''renderLinks() { new }''" 0]
      fx by blast
  have j: "status (update_js fallback_fixture) = Completed
     \<and> files (update_js fallback_fixture) index_path
       = Some (''renderLinks() { new }'' @ render_separator @ ''copyLink(url) { x }'')
     \<and> prefix render_loose_end_marker ''copyLink(url) { x }''"
    using loose_end_marker_fallback [of fallback_fixture
        "''renderLinks() { old } copyLink(url) { x }''" "''renderLinks() { new }''" 22]
      fx c d e by (simp add: slice_to_def)
  have k: "status (update_js render_fixture) = Completed
     \<and> files (update_js render_fixture) index_path
       = Some (''  renderLinks() { new }'' @ render_separator @ ''async copyLink(url) { x }'')
     \<and> prefix render_end_marker ''async copyLink(url) { x }''"
    using loose_end_marker_fallback [of render_fixture
        "''  renderLinks() { old } async copyLink(url) { x }''" "''renderLinks() { new }''" 24]
      fx f g by (simp add: slice_to_def)
  from h i j k show ?thesis by blast
qed

text \<open>
  Claim C6, as stated, fails: a second run can complete with a different buffer. Here the
  old buffer holds the start marker once more after the end marker, and the replacement
  contains neither marker; the second run finds the start marker behind the end marker
  and writes a buffer that repeats the region in between.
\<close>

theorem repeat_patch_counterexample:
  "str_find ''/* new styles */'' styles_start_marker = - 1
   \<and> str_find ''/* new styles */'' styles_end_marker = - 1
   \<and> status (update_index repeat_fixture) = Completed
   \<and> files (update_index repeat_fixture) index_path
       = Some ''/* new styles */\<newline>\<newline>function getAppJS() { a } function getStylesCSS() { b }''
   \<and> status (update_index (files (update_index repeat_fixture))) = Completed
   \<and> files (update_index (files (update_index repeat_fixture))) index_path
       = Some ''/* new styles */\<newline>\<newline>function getAppJS() { a } /* new styles */\<newline>\<newline>function getAppJS() { a } function getStylesCSS() { b }''
   \<and> files (update_index (files (update_index repeat_fixture))) index_path
       \<noteq> files (update_index repeat_fixture) index_path"
proof -
  let ?B = "''function getStylesCSS() { old } function getAppJS() { a } function getStylesCSS() { b }''"
  let ?N = "''/* new styles */\<newline>\<newline>function getAppJS() { a } function getStylesCSS() { b }''"
  let ?M = "''/* new styles */\<newline>\<newline>function getAppJS() { a } /* new styles */\<newline>\<newline>function getAppJS() { a } function getStylesCSS() { b }''"
  have fx: "repeat_fixture index_path = Some ?B"
    "repeat_fixture styles_snippet_path = Some ''/* new styles */''"
    by (simp_all add: repeat_fixture_def paths_distinct)
  have a: "str_find ?B styles_start_marker = 0" by code_simp
  have b: "str_find ?B styles_end_marker = 32" by code_simp
  have c: "str_find ?N styles_start_marker = 44" by code_simp
  have d: "str_find ?N styles_end_marker = 18" by code_simp
  have e: "str_find ''/* new styles */'' styles_start_marker = - 1" by code_simp
  have f: "str_find ''/* new styles */'' styles_end_marker = - 1" by code_simp
  have first: "update_index repeat_fixture
                 = \<lparr>stdout = [''Successfully updated index.js''], status = Completed,
                    files = repeat_fixture(index_path \<mapsto> ?N)\<rparr>"
    by (simp add: update_index_def fx a b slice_to_def slice_from_def styles_separator_def
          newline_def)
  have second: "update_index (repeat_fixture(index_path \<mapsto> ?N))
                 = \<lparr>stdout = [''Successfully updated index.js''], status = Completed,
                    files = (repeat_fixture(index_path \<mapsto> ?N))(index_path \<mapsto> ?M)\<rparr>"
    by (simp add: update_index_def fx paths_distinct c d slice_to_def slice_from_def
          styles_separator_def newline_def)
  show ?thesis
    by (simp add: first second e f)
qed

lemma prefix_shifted_occurrence:
  assumes "prefix S (P @ S @ Z)"
  shows "prefix S (P @ S @ Y)"
proof -
  have "take (length S) (P @ S @ Z) = take (length S) (P @ S)" by simp
  moreover have "take (length S) (P @ S @ Y) = take (length S) (P @ S)" by simp
  ultimately show ?thesis using assms
    by (metis prefix_def append_eq_conv_conj append_take_drop_id)
qed

lemma start_found_again:
  assumes f: "str_find B S = int i" and p: "prefix S R"
  shows "str_find (take i B @ R @ X) S = int i"
proof -
  have iB: "i \<le> length B" and occ: "prefix S (drop i B)"
    and first: "\<forall>k<i. \<not> prefix S (drop k B)"
    using f by (simp_all add: str_find_pos)
  from occ obtain Y where Y: "drop i B = S @ Y" by (auto simp: prefix_def)
  from p obtain Z where Z: "R = S @ Z" by (auto simp: prefix_def)
  have "\<not> prefix S (drop k (take i B @ R @ X))" if "k < i" for k
  proof
    assume h: "prefix S (drop k (take i B @ R @ X))"
    let ?P = "drop k (take i B)"
    from that iB have "drop k (take i B @ R @ X) = ?P @ S @ (Z @ X)"
      by (simp add: Z)
    with h have "prefix S (?P @ S @ Y)"
      using prefix_shifted_occurrence [of S ?P "Z @ X" Y] by simp
    moreover have "drop k B = ?P @ S @ Y"
      using that iB Y by (metis append_take_drop_id drop_append less_imp_le_nat length_take min.absorb2 drop_take diff_is_0_eq' drop0)
    ultimately show False using first that by metis
  qed
  moreover have "prefix S (drop i (take i B @ R @ X))"
    using iB p by (simp add: Z)
  moreover have "i \<le> length (take i B @ R @ X)" using iB by simp
  ultimately show ?thesis by (simp add: str_find_pos)
qed

text \<open>
  Claim C6, amended. After a successful run that located the start marker at \<open>i\<close> and wrote
  the buffer \<open>N\<close>, a second run with the same snippet fails with the missing-marker exit,
  leaving \<open>N\<close> in place, when \<open>N\<close> lacks a marker; it reproduces \<open>N\<close> when the first
  occurrences of the markers in \<open>N\<close> are at \<open>i\<close> and at the retained end marker,
  \<open>i + length R + length separator\<close>; and the start marker is found at \<open>i\<close> again whenever
  the snippet begins with it. Nothing is said of a buffer whose markers first occur
  elsewhere.
\<close>

theorem repeat_patch:
  "fs index_path = Some B \<and> fs styles_snippet_path = Some R
   \<and> str_find B styles_start_marker = int i \<and> str_find B styles_end_marker = int j
   \<and> N = take i B @ R @ styles_separator @ drop j B
   \<longrightarrow>
   status (update_index fs) = Completed \<and> files (update_index fs) = fs(index_path \<mapsto> N)
   \<and> (str_find N styles_start_marker = - 1 \<or> str_find N styles_end_marker = - 1
      \<longrightarrow> status (update_index (files (update_index fs))) = SystemExit 1
          \<and> files (update_index (files (update_index fs))) = files (update_index fs))
   \<and> (str_find N styles_start_marker = int i
        \<and> str_find N styles_end_marker = int (i + length R + length styles_separator)
      \<longrightarrow> status (update_index (files (update_index fs))) = Completed
          \<and> files (update_index (files (update_index fs))) = files (update_index fs))
   \<and> (prefix styles_start_marker R \<longrightarrow> str_find N styles_start_marker = int i)"
proof (intro impI)
  assume a: "fs index_path = Some B \<and> fs styles_snippet_path = Some R
   \<and> str_find B styles_start_marker = int i \<and> str_find B styles_end_marker = int j
   \<and> N = take i B @ R @ styles_separator @ drop j B"
  let ?fs1 = "fs(index_path \<mapsto> N)"
  have iB: "i \<le> length B" using a by (auto dest: str_find_le_length)
  have first: "update_index fs = \<lparr>stdout = [''Successfully updated index.js''],
                 status = Completed, files = ?fs1\<rparr>"
    using a by (simp add: update_index_def slice_to_def slice_from_def)
  have fs1: "?fs1 index_path = Some N" "?fs1 styles_snippet_path = Some R"
    using a by (simp_all add: paths_distinct)
  have missing: "str_find N styles_start_marker = - 1 \<or> str_find N styles_end_marker = - 1
      \<longrightarrow> status (update_index ?fs1) = SystemExit 1 \<and> files (update_index ?fs1) = ?fs1"
    using fs1 by (auto simp: update_index_def)
  have again: "take i N @ R @ styles_separator @ drop (i + length R + length styles_separator) N = N"
    using a iB by simp
  have same: "str_find N styles_start_marker = int i
        \<and> str_find N styles_end_marker = int (i + length R + length styles_separator)
      \<longrightarrow> status (update_index ?fs1) = Completed \<and> files (update_index ?fs1) = ?fs1"
  proof
    assume h: "str_find N styles_start_marker = int i
        \<and> str_find N styles_end_marker = int (i + length R + length styles_separator)"
    then have "update_index ?fs1 = \<lparr>stdout = [''Successfully updated index.js''],
                 status = Completed,
                 files = ?fs1(index_path \<mapsto> take i N @ R @ styles_separator
                            @ drop (i + length R + length styles_separator) N)\<rparr>"
      using fs1 by (simp add: update_index_def slice_to_def slice_from_def del: of_nat_add)
    with again show "status (update_index ?fs1) = Completed \<and> files (update_index ?fs1) = ?fs1"
      by simp
  qed
  have start: "prefix styles_start_marker R \<longrightarrow> str_find N styles_start_marker = int i"
    using a start_found_again [of B styles_start_marker i R "styles_separator @ drop j B"]
    by simp
  from first missing same start
  show "status (update_index fs) = Completed \<and> files (update_index fs) = fs(index_path \<mapsto> N)
   \<and> (str_find N styles_start_marker = - 1 \<or> str_find N styles_end_marker = - 1
      \<longrightarrow> status (update_index (files (update_index fs))) = SystemExit 1
          \<and> files (update_index (files (update_index fs))) = files (update_index fs))
   \<and> (str_find N styles_start_marker = int i
        \<and> str_find N styles_end_marker = int (i + length R + length styles_separator)
      \<longrightarrow> status (update_index (files (update_index fs))) = Completed
          \<and> files (update_index (files (update_index fs))) = files (update_index fs))
   \<and> (prefix styles_start_marker R \<longrightarrow> str_find N styles_start_marker = int i)"
    by simp
qed

theorem repeat_patch_witness:
  "status (update_index styles_fixture) = Completed
   \<and> status (update_index (files (update_index styles_fixture))) = Completed
   \<and> files (update_index (files (update_index styles_fixture)))
       = files (update_index styles_fixture)
   \<and> str_find (''/* a */ function getStylesCSS() { new }'' @ styles_separator
                 @ ''function getAppJS() { x }'') styles_start_marker = int 8
   \<and> status (update_index marker_removed_fixture) = Completed
   \<and> status (update_index (files (update_index marker_removed_fixture))) = SystemExit 1
   \<and> files (update_index (files (update_index marker_removed_fixture)))
       = files (update_index marker_removed_fixture)"
proof -
  let ?B = "''/* a */ function getStylesCSS() { old } function getAppJS() { x }''"
  let ?R = "''function getStylesCSS() { new }''"
  let ?N = "''/* a */ function getStylesCSS() { new }'' @ styles_separator
              @ ''function getAppJS() { x }''"
  let ?B' = "''function getStylesCSS() { old } function getAppJS() { a }''"
  let ?R' = "''/* new styles */''"
  let ?N' = "''/* new styles */'' @ styles_separator @ ''function getAppJS() { a }''"
  have fx: "styles_fixture index_path = Some ?B"
    "styles_fixture styles_snippet_path = Some ?R"
    "marker_removed_fixture index_path = Some ?B'"
    "marker_removed_fixture styles_snippet_path = Some ?R'"
    by (simp_all add: styles_fixture_def marker_removed_fixture_def paths_distinct)
  have a: "str_find ?B styles_start_marker = int 8" by code_simp
  have b: "str_find ?B styles_end_marker = int 40" by code_simp
  have c: "str_find ?N styles_end_marker = int (8 + length ?R + length styles_separator)"
    by code_simp
  have d: "prefix styles_start_marker ?R" by code_simp
  have e: "?N = take 8 ?B @ ?R @ styles_separator @ drop 40 ?B" by simp
  have a': "str_find ?B' styles_start_marker = int 0" by code_simp
  have b': "str_find ?B' styles_end_marker = int 32" by code_simp
  have c': "str_find ?N' styles_start_marker = - 1" by code_simp
  have e': "?N' = take 0 ?B' @ ?R' @ styles_separator @ drop 32 ?B'" by simp
  have s: "str_find ?N styles_start_marker = int 8"
    using repeat_patch [of styles_fixture ?B ?R 8 40 ?N] fx a b d e by blast
  have one: "status (update_index styles_fixture) = Completed
     \<and> status (update_index (files (update_index styles_fixture))) = Completed
     \<and> files (update_index (files (update_index styles_fixture)))
         = files (update_index styles_fixture)"
    using repeat_patch [of styles_fixture ?B ?R 8 40 ?N] fx a b c e s by blast
  have two: "status (update_index marker_removed_fixture) = Completed
     \<and> status (update_index (files (update_index marker_removed_fixture))) = SystemExit 1
     \<and> files (update_index (files (update_index marker_removed_fixture)))
         = files (update_index marker_removed_fixture)"
    using repeat_patch [of marker_removed_fixture ?B' ?R' 0 32 ?N'] fx a' b' c' e' by blast
  from one two s show ?thesis by blast
qed

section \<open>The manifest rewrite\<close>

lemma map_of_dict_set: "map_of (dict_set k v kvs) k' = (if k' = k then Some v else map_of kvs k')"
  by (induction kvs) auto

lemma map_of_dict_del: "map_of (dict_del k kvs) k' = (if k' = k then None else map_of kvs k')"
  by (induction kvs) (auto simp: dict_del_def)

lemma key_in_iff: "k \<in> set (map fst kvs) \<longleftrightarrow> map_of kvs k \<noteq> None"
  by (induction kvs) auto

lemma key_in_iff': "k \<in> fst ` set kvs \<longleftrightarrow> map_of kvs k \<noteq> None"
  using key_in_iff [of k kvs] by simp

lemma keys_dict_set_present:
  "map_of kvs k \<noteq> None \<Longrightarrow> map fst (dict_set k v kvs) = map fst kvs"
  by (induction kvs) auto

lemma fix_manifest_pop:
  assumes "map_of m ''background'' = Some (JObj b)" "map_of b ''service_worker'' = Some sw"
  shows "fix_manifest (JObj m) =
     (case map_of b ''scripts'' of
        None \<Rightarrow> Inr (JObj (dict_set ''background''
                  (JObj (dict_set ''scripts'' (JArr [sw]) (dict_del ''service_worker'' b))) m))
      | Some scripts \<Rightarrow>
          (case py_in sw scripts of
             Inl e \<Rightarrow> Inl e
           | Inr True \<Rightarrow> Inr (JObj (dict_set ''background''
                  (JObj (dict_del ''service_worker'' b)) m))
           | Inr False \<Rightarrow>
              (case py_append scripts sw of
                 Inl e \<Rightarrow> Inl e
               | Inr scripts' \<Rightarrow> Inr (JObj (dict_set ''background''
                  (JObj (dict_set ''scripts'' scripts' (dict_del ''service_worker'' b))) m)))))"
  using assms
  by (auto simp: fix_manifest_def set_background_def key_in_iff' map_of_dict_del
        split: option.splits sum.splits bool.splits)

text \<open>
  Claim C4. For every manifest whose background section holds a \<open>service_worker\<close> key, the
  rewrite removes that key and merges its value into the \<open>scripts\<close> of the section: with
  no \<open>scripts\<close> key it creates the one-element list, with a \<open>scripts\<close> list that lacks
  the value it appends the value, and with \<open>scripts\<close> already holding the value it leaves
  \<open>scripts\<close> as it is. Holding a value is Python's \<open>in\<close>.
\<close>

theorem service_worker_moved_to_scripts:
  "map_of m ''background'' = Some (JObj b) \<and> map_of b ''service_worker'' = Some sw \<longrightarrow>
     (map_of b ''scripts'' = None
        \<longrightarrow> moved_to_scripts m b (JArr [sw]) (fix_manifest (JObj m)))
   \<and> (map_of b ''scripts'' = Some (JArr xs) \<and> py_in sw (JArr xs) = Inr False
        \<longrightarrow> moved_to_scripts m b (JArr (xs @ [sw])) (fix_manifest (JObj m)))
   \<and> (map_of b ''scripts'' = Some scripts \<and> py_in sw scripts = Inr True
        \<longrightarrow> moved_to_scripts m b scripts (fix_manifest (JObj m)))"
proof (intro impI conjI)
  assume a: "map_of m ''background'' = Some (JObj b) \<and> map_of b ''service_worker'' = Some sw"
  note pop = fix_manifest_pop [of m b sw]
  {
    assume "map_of b ''scripts'' = None"
    with a pop show "moved_to_scripts m b (JArr [sw]) (fix_manifest (JObj m))"
      by (simp add: moved_to_scripts_def map_of_dict_set map_of_dict_del)
  next
    assume "map_of b ''scripts'' = Some (JArr xs) \<and> py_in sw (JArr xs) = Inr False"
    with a pop show "moved_to_scripts m b (JArr (xs @ [sw])) (fix_manifest (JObj m))"
      by (simp add: moved_to_scripts_def map_of_dict_set map_of_dict_del)
  next
    assume "map_of b ''scripts'' = Some scripts \<and> py_in sw scripts = Inr True"
    with a pop show "moved_to_scripts m b scripts (fix_manifest (JObj m))"
      by (simp add: moved_to_scripts_def map_of_dict_set map_of_dict_del)
  }
qed

theorem service_worker_moved_to_scripts_witness:
  "moved_to_scripts
     [(''name'', JStr ''x''), (''background'', JObj [(''service_worker'', JStr ''bg.js'')])]
     [(''service_worker'', JStr ''bg.js'')]
     (JArr [JStr ''bg.js''])
     (fix_manifest (JObj [(''name'', JStr ''x''),
                          (''background'', JObj [(''service_worker'', JStr ''bg.js'')])]))
   \<and> moved_to_scripts
     [(''background'', JObj [(''service_worker'', JStr ''bg.js''),
                             (''scripts'', JArr [JStr ''other.js''])])]
     [(''service_worker'', JStr ''bg.js''), (''scripts'', JArr [JStr ''other.js''])]
     (JArr [JStr ''other.js'', JStr ''bg.js''])
     (fix_manifest (JObj [(''background'', JObj [(''service_worker'', JStr ''bg.js''),
                             (''scripts'', JArr [JStr ''other.js''])])]))
   \<and> moved_to_scripts
     [(''background'', JObj [(''service_worker'', JStr ''bg.js''),
                             (''scripts'', JArr [JStr ''bg.js'', JStr ''other.js''])])]
     [(''service_worker'', JStr ''bg.js''),
      (''scripts'', JArr [JStr ''bg.js'', JStr ''other.js''])]
     (JArr [JStr ''bg.js'', JStr ''other.js''])
     (fix_manifest (JObj [(''background'', JObj [(''service_worker'', JStr ''bg.js''),
                             (''scripts'', JArr [JStr ''bg.js'', JStr ''other.js''])])]))
   \<and> fix_manifest (JObj [(''background'', JObj [(''service_worker'', JStr ''bg.js''),
                             (''scripts'', JArr [JStr ''bg.js'', JStr ''other.js''])])])
       = Inr (JObj [(''background'',
                     JObj [(''scripts'', JArr [JStr ''bg.js'', JStr ''other.js''])])])"
proof -
  have a: "py_in (JStr ''bg.js'') (JArr [JStr ''other.js'']) = Inr False" by code_simp
  have b: "py_in (JStr ''bg.js'') (JArr [JStr ''bg.js'', JStr ''other.js'']) = Inr True"
    by code_simp
  have c: "fix_manifest (JObj [(''background'', JObj [(''service_worker'', JStr ''bg.js''),
                             (''scripts'', JArr [JStr ''bg.js'', JStr ''other.js''])])])
       = Inr (JObj [(''background'',
                     JObj [(''scripts'', JArr [JStr ''bg.js'', JStr ''other.js''])])])"
    by code_simp
  have one: "moved_to_scripts
     [(''name'', JStr ''x''), (''background'', JObj [(''service_worker'', JStr ''bg.js'')])]
     [(''service_worker'', JStr ''bg.js'')]
     (JArr [JStr ''bg.js''])
     (fix_manifest (JObj [(''name'', JStr ''x''),
                          (''background'', JObj [(''service_worker'', JStr ''bg.js'')])]))"
    using service_worker_moved_to_scripts
      [of "[(''name'', JStr ''x''), (''background'', JObj [(''service_worker'', JStr ''bg.js'')])]"
          "[(''service_worker'', JStr ''bg.js'')]" "JStr ''bg.js''"]
    by simp
  have two: "moved_to_scripts
     [(''background'', JObj [(''service_worker'', JStr ''bg.js''),
                             (''scripts'', JArr [JStr ''other.js''])])]
     [(''service_worker'', JStr ''bg.js''), (''scripts'', JArr [JStr ''other.js''])]
     (JArr [JStr ''other.js'', JStr ''bg.js''])
     (fix_manifest (JObj [(''background'', JObj [(''service_worker'', JStr ''bg.js''),
                             (''scripts'', JArr [JStr ''other.js''])])]))"
    using service_worker_moved_to_scripts
      [of "[(''background'', JObj [(''service_worker'', JStr ''bg.js''),
                             (''scripts'', JArr [JStr ''other.js''])])]"
          "[(''service_worker'', JStr ''bg.js''), (''scripts'', JArr [JStr ''other.js''])]"
          "JStr ''bg.js''" "[JStr ''other.js'']"] a
    by simp
  have three: "moved_to_scripts
     [(''background'', JObj [(''service_worker'', JStr ''bg.js''),
                             (''scripts'', JArr [JStr ''bg.js'', JStr ''other.js''])])]
     [(''service_worker'', JStr ''bg.js''),
      (''scripts'', JArr [JStr ''bg.js'', JStr ''other.js''])]
     (JArr [JStr ''bg.js'', JStr ''other.js''])
     (fix_manifest (JObj [(''background'', JObj [(''service_worker'', JStr ''bg.js''),
                             (''scripts'', JArr [JStr ''bg.js'', JStr ''other.js''])])]))"
    using service_worker_moved_to_scripts
      [of "[(''background'', JObj [(''service_worker'', JStr ''bg.js''),
                             (''scripts'', JArr [JStr ''bg.js'', JStr ''other.js''])])]"
          "[(''service_worker'', JStr ''bg.js''),
            (''scripts'', JArr [JStr ''bg.js'', JStr ''other.js''])]"
          "JStr ''bg.js''" _ "JArr [JStr ''bg.js'', JStr ''other.js'']"] b
    by simp
  from one two three c show ?thesis by blast
qed

lemma fix_manifest_result:
  assumes "fix_manifest manifest = Inr out"
  shows "out = manifest
     \<or> (\<exists>m b'. out = JObj (dict_set ''background'' (JObj b') m)
              \<and> map_of b' ''service_worker'' = None)"
proof (cases "py_in (JStr ''background'') manifest")
  case (Inl e)
  with assms show ?thesis by (simp add: fix_manifest_def)
next
  case (Inr present)
  show ?thesis
  proof (cases present)
    case False
    with Inr assms show ?thesis by (simp add: fix_manifest_def)
  next
    case True
    show ?thesis
    proof (cases manifest)
      case (JObj m)
      with Inr True obtain bg where bg: "map_of m ''background'' = Some bg"
        by (auto simp: key_in_iff')
      show ?thesis
      proof (cases "py_in (JStr ''service_worker'') bg")
        case (Inl e)
        with assms JObj bg Inr True show ?thesis by (simp add: fix_manifest_def)
      next
        case sw_in: (Inr has)
        show ?thesis
        proof (cases has)
          case False
          with sw_in assms JObj bg Inr True show ?thesis by (simp add: fix_manifest_def)
        next
          case has: True
          show ?thesis
          proof (cases bg)
            case b: (JObj b)
            with sw_in has obtain sw where sw: "map_of b ''service_worker'' = Some sw"
              by (auto simp: key_in_iff')
            have "\<exists>b'. out = JObj (dict_set ''background'' (JObj b') m)
                    \<and> map_of b' ''service_worker'' = None"
              using assms fix_manifest_pop [of m b sw] bg b sw JObj
              by (auto simp: map_of_dict_set map_of_dict_del
                    split: option.splits sum.splits bool.splits)
            then show ?thesis by blast
          qed (use assms JObj bg Inr True sw_in has in \<open>auto simp: fix_manifest_def\<close>)
        qed
      qed
    qed (use assms Inr True in \<open>auto simp: fix_manifest_def\<close>)
  qed
qed

text \<open>
  Claim C7. A manifest without a background section, or whose background section has no
  \<open>service_worker\<close> key, is returned unchanged; and running the rewrite on what the
  rewrite returned gives the same manifest again.
\<close>

theorem fix_manifest_idempotent:
  "(map_of m ''background'' = None \<longrightarrow> fix_manifest (JObj m) = Inr (JObj m))
   \<and> (map_of m ''background'' = Some (JObj b) \<and> map_of b ''service_worker'' = None
        \<longrightarrow> fix_manifest (JObj m) = Inr (JObj m))
   \<and> (fix_manifest manifest = Inr out \<longrightarrow> fix_manifest out = Inr out)"
proof (intro conjI impI)
  assume "map_of m ''background'' = None"
  then show "fix_manifest (JObj m) = Inr (JObj m)"
    by (simp add: fix_manifest_def key_in_iff')
next
  assume "map_of m ''background'' = Some (JObj b) \<and> map_of b ''service_worker'' = None"
  then show "fix_manifest (JObj m) = Inr (JObj m)"
    by (simp add: fix_manifest_def key_in_iff')
next
  assume a: "fix_manifest manifest = Inr out"
  from fix_manifest_result [OF a] show "fix_manifest out = Inr out"
  proof
    assume "out = manifest"
    with a show ?thesis by simp
  next
    assume "\<exists>m b'. out = JObj (dict_set ''background'' (JObj b') m)
              \<and> map_of b' ''service_worker'' = None"
    then obtain m b' where o: "out = JObj (dict_set ''background'' (JObj b') m)"
      and n: "map_of b' ''service_worker'' = None" by blast
    show ?thesis unfolding o using n
      by (simp add: fix_manifest_def key_in_iff' map_of_dict_set)
  qed
qed

theorem fix_manifest_idempotent_witness:
  "fix_manifest (JObj [(''name'', JStr ''x'')]) = Inr (JObj [(''name'', JStr ''x'')])
   \<and> fix_manifest (JObj [(''background'', JObj [(''scripts'', JArr [JStr ''bg.js''])])])
       = Inr (JObj [(''background'', JObj [(''scripts'', JArr [JStr ''bg.js''])])])
   \<and> fix_manifest (JObj [(''manifest_version'', JInt 3),
                         (''background'', JObj [(''service_worker'', JStr ''bg.js'')])])
       = Inr (JObj [(''manifest_version'', JInt 3),
                    (''background'', JObj [(''scripts'', JArr [JStr ''bg.js''])])])
   \<and> fix_manifest (JObj [(''manifest_version'', JInt 3),
                    (''background'', JObj [(''scripts'', JArr [JStr ''bg.js''])])])
       = Inr (JObj [(''manifest_version'', JInt 3),
                    (''background'', JObj [(''scripts'', JArr [JStr ''bg.js''])])])"
proof -
  have a: "fix_manifest (JObj [(''manifest_version'', JInt 3),
                         (''background'', JObj [(''service_worker'', JStr ''bg.js'')])])
       = Inr (JObj [(''manifest_version'', JInt 3),
                    (''background'', JObj [(''scripts'', JArr [JStr ''bg.js''])])])"
    by code_simp
  have one: "fix_manifest (JObj [(''name'', JStr ''x'')]) = Inr (JObj [(''name'', JStr ''x'')])"
    using fix_manifest_idempotent [of "[(''name'', JStr ''x'')]"] by simp
  have two: "fix_manifest (JObj [(''background'', JObj [(''scripts'', JArr [JStr ''bg.js''])])])
       = Inr (JObj [(''background'', JObj [(''scripts'', JArr [JStr ''bg.js''])])])"
    using fix_manifest_idempotent
      [of "[(''background'', JObj [(''scripts'', JArr [JStr ''bg.js''])])]"
          "[(''scripts'', JArr [JStr ''bg.js''])]"]
    by simp
  have three: "fix_manifest (JObj [(''manifest_version'', JInt 3),
                    (''background'', JObj [(''scripts'', JArr [JStr ''bg.js''])])])
       = Inr (JObj [(''manifest_version'', JInt 3),
                    (''background'', JObj [(''scripts'', JArr [JStr ''bg.js''])])])"
    using fix_manifest_idempotent
      [of _ _ "JObj [(''manifest_version'', JInt 3),
                     (''background'', JObj [(''service_worker'', JStr ''bg.js'')])]"
          "JObj [(''manifest_version'', JInt 3),
                 (''background'', JObj [(''scripts'', JArr [JStr ''bg.js''])])]"] a
    by blast
  from one two three a show ?thesis by blast
qed

section \<open>Paths, the walk and the archive\<close>

lemma valid_nameD:
  "valid_name n \<Longrightarrow> n \<noteq> [] \<and> backslash \<notin> set n \<and> CHR ''/'' \<notin> set n"
  by (simp add: valid_name_def)

lemma split_on_nonempty: "split_on s cs \<noteq> []"
  by (induction cs) (auto split: list.splits)

lemma split_on_append:
  "split_on s (a @ s # b) = split_on s a @ split_on s b"
proof (induction a)
  case Nil
  then show ?case by simp
next
  case (Cons c a)
  then show ?case
    using split_on_nonempty [of s a] by (auto split: list.splits)
qed

lemma split_on_plain: "s \<notin> set n \<Longrightarrow> split_on s n = [n]"
  by (induction n) (auto split: list.splits)

lemma components_join:
  "valid_name n \<Longrightarrow> components (os_path_join root n) = components root @ [n]"
  using valid_nameD [of n]
  by (simp add: components_def os_path_join_def split_on_append split_on_plain)

lemma common_prefix_length_append: "common_prefix_length xs (xs @ ys) = length xs"
  by (induction xs) auto

lemma replace_plain:
  "old \<notin> set s \<Longrightarrow> str_replace_char old new s = s"
  by (induction s) (auto simp: str_replace_char_def)

lemma replace_append:
  "str_replace_char old new (a @ b) = str_replace_char old new a @ str_replace_char old new b"
  by (simp add: str_replace_char_def)

lemma replace_win_path:
  "\<forall>n\<in>set ns. backslash \<notin> set n \<Longrightarrow>
     str_replace_char backslash CHR ''/'' (win_path ns) = slash_join ns"
proof (induction ns rule: win_path.induct)
  case 1
  then show ?case by (simp add: str_replace_char_def slash_join_def)
next
  case (2 c)
  then show ?case by (simp add: replace_plain slash_join_def)
next
  case (3 c v va)
  then have "str_replace_char backslash CHR ''/'' (win_path (v # va)) = slash_join (v # va)"
    by simp
  moreover have "str_replace_char backslash CHR ''/'' c = c"
    using 3 by (simp add: replace_plain)
  moreover have "str_replace_char backslash CHR ''/'' [backslash] = ''/''"
    by (simp add: str_replace_char_def)
  ultimately show ?case
    using replace_append [of backslash "CHR ''/''" c "backslash # win_path (v # va)"]
      replace_append [of backslash "CHR ''/''" "[backslash]" "win_path (v # va)"]
    by (simp add: slash_join_def)
qed

lemma arcname_under:
  assumes "components root = components dist_dir @ q"
    and "\<forall>n\<in>set q. valid_name n" and "valid_name file"
  shows "arcname dist_dir root file = slash_join (q @ [file])"
proof -
  have "components (os_path_join root file) = components dist_dir @ q @ [file]"
    using assms by (simp add: components_join)
  then have "os_path_relpath (os_path_join root file) dist_dir = win_path (q @ [file])"
    by (simp add: os_path_relpath_def common_prefix_length_append)
  moreover have "\<forall>n\<in>set (q @ [file]). backslash \<notin> set n"
    using assms by (auto dest: valid_nameD)
  ultimately show ?thesis
    using replace_win_path [of "q @ [file]"] by (simp add: arcname_def)
qed

lemma zip_walk_append:
  "zip_walk skip dist_dir (a @ b) = zip_walk skip dist_dir a @ zip_walk skip dist_dir b"
  by (induction a) auto

lemma files_in_nonempty: "(p, c) \<in> set (files_in es) \<Longrightarrow> p \<noteq> []"
  by (induction es arbitrary: p c rule: nested_files.induct) auto

lemma files_in_split:
  "mset (files_in es) = mset (map (\<lambda>(n, c). ([n], c)) (file_names es)) + mset (nested_files es)"
  by (induction es rule: file_names.induct) auto

lemma file_names_valid:
  "wf_entries es \<Longrightarrow> (n, c) \<in> set (file_names es) \<Longrightarrow> valid_name n"
  by (induction es rule: file_names.induct) auto

lemma zip_files_eq:
  assumes "components root = components dist_dir @ q" and "\<forall>n\<in>set q. valid_name n"
    and "\<forall>(n, c)\<in>set fs. valid_name n"
  shows "zip_files skip dist_dir root fs
       = map (\<lambda>(p, c). (slash_join (q @ p), c))
           (filter (\<lambda>(p, c). \<not> skip (last p)) (map (\<lambda>(n, c). ([n], c)) fs))"
  using assms(3)
proof (induction fs)
  case Nil
  then show ?case by simp
next
  case (Cons f fs)
  obtain n c where f: "f = (n, c)" by (cases f)
  with Cons.prems have "valid_name n" by simp
  then have "arcname dist_dir root n = slash_join (q @ [n])"
    using assms(1,2) by (rule arcname_under [rotated 2])
  with Cons f show ?case by simp
qed

lemma filter_map_nonempty:
  "\<forall>x\<in>set xs. fst x \<noteq> [] \<Longrightarrow>
     filter (\<lambda>(p, c). \<not> skip (last p)) (map (\<lambda>(p, c). (n # p, c)) xs)
       = map (\<lambda>(p, c). (n # p, c)) (filter (\<lambda>(p, c). \<not> skip (last p)) xs)"
  by (induction xs) (auto split: prod.splits)

lemma filter_cons_path:
  "filter (\<lambda>(p, c). \<not> skip (last p)) (map (\<lambda>(p, c). (n # p, c)) (files_in ds))
     = map (\<lambda>(p, c). (n # p, c)) (filter (\<lambda>(p, c). \<not> skip (last p)) (files_in ds))"
proof -
  have "\<forall>x\<in>set (files_in ds). fst x \<noteq> []"
    using files_in_nonempty by fastforce
  then show ?thesis by (rule filter_map_nonempty)
qed

lemma walk_mset:
  "\<forall>q. components root = components dist_dir @ q \<longrightarrow> (\<forall>n\<in>set q. valid_name n)
       \<longrightarrow> wf_node t
       \<longrightarrow> mset (zip_walk skip dist_dir (walk root t))
           = mset (map (\<lambda>(p, c). (slash_join (q @ p), c))
                    (filter (\<lambda>(p, c). \<not> skip (last p)) (files_of t)))"
  "\<forall>q. components root' = components dist_dir @ q \<longrightarrow> (\<forall>n\<in>set q. valid_name n)
       \<longrightarrow> wf_entries es
       \<longrightarrow> mset (zip_walk skip dist_dir (walk_subdirs root' es))
           = mset (map (\<lambda>(p, c). (slash_join (q @ p), c))
                    (filter (\<lambda>(p, c). \<not> skip (last p)) (nested_files es)))"
proof (induction root t and root' es rule: walk_walk_subdirs.induct)
  case (1 root c)
  then show ?case by simp
next
  case (2 root es)
  show ?case
  proof (intro allI impI)
    fix q
    assume q: "components root = components dist_dir @ q" "\<forall>n\<in>set q. valid_name n"
      and wf: "wf_node (Dir es)"
    have v: "\<forall>(n, c)\<in>set (file_names es). valid_name n"
      using wf file_names_valid [of es] by auto
    have a: "mset (zip_walk skip dist_dir (walk_subdirs root es))
           = mset (map (\<lambda>(p, c). (slash_join (q @ p), c))
                    (filter (\<lambda>(p, c). \<not> skip (last p)) (nested_files es)))"
      using 2 q wf by simp
    have b: "zip_files skip dist_dir root (file_names es)
       = map (\<lambda>(p, c). (slash_join (q @ p), c))
           (filter (\<lambda>(p, c). \<not> skip (last p)) (map (\<lambda>(n, c). ([n], c)) (file_names es)))"
      using q v by (rule zip_files_eq)
    have "mset (map (\<lambda>(p, c). (slash_join (q @ p), c))
                    (filter (\<lambda>(p, c). \<not> skip (last p)) (files_in es)))
        = image_mset (\<lambda>(p, c). (slash_join (q @ p), c))
            (filter_mset (\<lambda>(p, c). \<not> skip (last p)) (mset (files_in es)))"
      by simp
    also have "\<dots> = mset (map (\<lambda>(p, c). (slash_join (q @ p), c))
           (filter (\<lambda>(p, c). \<not> skip (last p)) (map (\<lambda>(n, c). ([n], c)) (file_names es))))
         + mset (map (\<lambda>(p, c). (slash_join (q @ p), c))
                    (filter (\<lambda>(p, c). \<not> skip (last p)) (nested_files es)))"
      unfolding files_in_split by simp
    finally show "mset (zip_walk skip dist_dir (walk root (Dir es)))
           = mset (map (\<lambda>(p, c). (slash_join (q @ p), c))
                    (filter (\<lambda>(p, c). \<not> skip (last p)) (files_of (Dir es))))"
      using a b by simp
  qed
next
  case (3 root)
  then show ?case by simp
next
  case (4 root n c es)
  then show ?case by simp
next
  case (5 root n ds es)
  show ?case
  proof (intro allI impI)
    fix q
    assume q: "components root = components dist_dir @ q" "\<forall>n\<in>set q. valid_name n"
      and wf: "wf_entries ((n, Dir ds) # es)"
    from wf have n: "valid_name n" and wfd: "wf_node (Dir ds)" and wfe: "wf_entries es"
      by simp_all
    have c: "components (os_path_join root n) = components dist_dir @ (q @ [n])"
      using q n by (simp add: components_join)
    have "\<forall>m\<in>set (q @ [n]). valid_name m" using q n by simp
    with 5(1) c wfd
    have a: "mset (zip_walk skip dist_dir (walk (os_path_join root n) (Dir ds)))
           = mset (map (\<lambda>(p, c). (slash_join ((q @ [n]) @ p), c))
                    (filter (\<lambda>(p, c). \<not> skip (last p)) (files_of (Dir ds))))"
      by blast
    have b: "mset (zip_walk skip dist_dir (walk_subdirs root es))
           = mset (map (\<lambda>(p, c). (slash_join (q @ p), c))
                    (filter (\<lambda>(p, c). \<not> skip (last p)) (nested_files es)))"
      using 5(2) q wfe by blast
    have d: "map (\<lambda>(p, c). (slash_join (q @ p), c))
               (map (\<lambda>(p, c). (n # p, c)) (filter (\<lambda>(p, c). \<not> skip (last p)) (files_in ds)))
           = map (\<lambda>(p, c). (slash_join ((q @ [n]) @ p), c))
               (filter (\<lambda>(p, c). \<not> skip (last p)) (files_in ds))"
      by (simp add: case_prod_unfold comp_def)
    show "mset (zip_walk skip dist_dir (walk_subdirs root ((n, Dir ds) # es)))
           = mset (map (\<lambda>(p, c). (slash_join (q @ p), c))
                    (filter (\<lambda>(p, c). \<not> skip (last p)) (nested_files ((n, Dir ds) # es))))"
    proof -
      have l: "zip_walk skip dist_dir (walk_subdirs root ((n, Dir ds) # es))
             = zip_walk skip dist_dir (walk (os_path_join root n) (Dir ds))
               @ zip_walk skip dist_dir (walk_subdirs root es)"
        by (simp add: zip_walk_append)
      have r: "map (\<lambda>(p, c). (slash_join (q @ p), c))
                 (filter (\<lambda>(p, c). \<not> skip (last p)) (nested_files ((n, Dir ds) # es)))
             = map (\<lambda>(p, c). (slash_join ((q @ [n]) @ p), c))
                 (filter (\<lambda>(p, c). \<not> skip (last p)) (files_in ds))
               @ map (\<lambda>(p, c). (slash_join (q @ p), c))
                   (filter (\<lambda>(p, c). \<not> skip (last p)) (nested_files es))"
        by (simp only: nested_files.simps filter_append map_append filter_cons_path d)
      show ?thesis
        using a b by (simp only: l r mset_append files_of.simps)
    qed
  qed
qed

lemma files_in_hd: "(p, c) \<in> set (files_in es) \<Longrightarrow> hd p \<in> set (map fst es)"
  by (induction es arbitrary: p c rule: nested_files.induct) auto

lemma dirs_in_hd: "d \<in> set (dirs_in es) \<Longrightarrow> d \<noteq> [] \<and> hd d \<in> set (map fst es)"
  by (induction es arbitrary: d rule: nested_files.induct) auto

lemma files_names_valid:
  "wf_node t \<longrightarrow> (\<forall>(p, c)\<in>set (files_of t). \<forall>n\<in>set p. valid_name n)"
  "wf_entries es \<longrightarrow> (\<forall>(p, c)\<in>set (files_in es). \<forall>n\<in>set p. valid_name n)"
  by (induction t and es rule: files_of_files_in.induct) fastforce+

lemma dirs_names_valid:
  "wf_node t \<longrightarrow> (\<forall>d\<in>set (dirs_of t). \<forall>n\<in>set d. valid_name n)"
  "wf_entries es \<longrightarrow> (\<forall>d\<in>set (dirs_in es). \<forall>n\<in>set d. valid_name n)"
  by (induction t and es rule: dirs_of_dirs_in.induct) auto

lemma distinct_map_cons: "distinct xs \<Longrightarrow> distinct (map ((#) n) xs)"
  by (simp add: distinct_map inj_on_def)

lemma files_paths_distinct:
  "wf_node t \<longrightarrow> distinct (map fst (files_of t))"
  "wf_entries es \<longrightarrow> distinct (map fst (files_in es))"
proof (induction t and es rule: files_of_files_in.induct)
  case (1 c)
  then show ?case by simp
next
  case (2 es)
  then show ?case by simp
next
  case 3
  then show ?case by simp
next
  case (4 n c es)
  show ?case
  proof
    assume wf: "wf_entries ((n, File c) # es)"
    have "[n] \<notin> fst ` set (files_in es)"
    proof
      assume "[n] \<in> fst ` set (files_in es)"
      then obtain c' where "([n], c') \<in> set (files_in es)" by auto
      from files_in_hd [OF this] wf show False by simp
    qed
    with 4 wf show "distinct (map fst (files_in ((n, File c) # es)))" by simp
  qed
next
  case (5 n ds es)
  show ?case
  proof
    assume wf: "wf_entries ((n, Dir ds) # es)"
    have a: "distinct (map fst (files_in ds))" using 5 wf by simp
    have b: "distinct (map fst (files_in es))" using 5 wf by simp
    have m: "map fst (map (\<lambda>(p, c). (n # p, c)) (files_in ds))
               = map ((#) n) (map fst (files_in ds))"
      by (simp add: case_prod_unfold comp_def)
    have c: "distinct (map ((#) n) (map fst (files_in ds)))"
      using a by (rule distinct_map_cons)
    have d: "set (map ((#) n) (map fst (files_in ds))) \<inter> set (map fst (files_in es)) = {}"
    proof (rule ccontr)
      assume "\<not> ?thesis"
      then obtain p c' where "(n # p, c') \<in> set (files_in es)" by auto
      from files_in_hd [OF this] wf show False by simp
    qed
    show "distinct (map fst (files_in ((n, Dir ds) # es)))"
      using b c d by (simp only: files_in.simps map_append m distinct_append)
  qed
qed

lemma dirs_not_files:
  "wf_node t \<longrightarrow> set (dirs_of t) \<inter> fst ` set (files_of t) = {}"
  "wf_entries es \<longrightarrow> set (dirs_in es) \<inter> fst ` set (files_in es) = {}"
proof (induction t and es rule: files_of_files_in.induct)
  case (1 c)
  then show ?case by simp
next
  case (2 es)
  then show ?case by simp
next
  case 3
  then show ?case by simp
next
  case (4 n c es)
  show ?case
  proof
    assume wf: "wf_entries ((n, File c) # es)"
    have "[n] \<notin> set (dirs_in es)"
      using dirs_in_hd [of "[n]" es] wf by auto
    with 4 wf show "set (dirs_in ((n, File c) # es)) \<inter> fst ` set (files_in ((n, File c) # es)) = {}"
      by auto
  qed
next
  case (5 n ds es)
  show ?case
  proof
    assume wf: "wf_entries ((n, Dir ds) # es)"
    have a: "set (dirs_in ds) \<inter> fst ` set (files_in ds) = {}" using 5 wf by simp
    have b: "set (dirs_in es) \<inter> fst ` set (files_in es) = {}" using 5 wf by simp
    have n: "n \<notin> set (map fst es)" using wf by simp
    have ds: "set (dirs_in ((n, Dir ds) # es))
                = {[n]} \<union> (#) n ` set (dirs_in ds) \<union> set (dirs_in es)"
      by auto
    have fs: "fst ` set (files_in ((n, Dir ds) # es))
                = (#) n ` fst ` set (files_in ds) \<union> fst ` set (files_in es)"
      by (auto simp: image_iff) force+
    have e1: "[n] \<notin> (#) n ` fst ` set (files_in ds)"
      using files_in_nonempty [of "[]" _ ds] by auto
    have e2: "[n] \<notin> fst ` set (files_in es)"
      using files_in_hd [of "[n]" _ es] n by auto
    have e3: "(#) n ` set (dirs_in ds) \<inter> (#) n ` fst ` set (files_in ds) = {}"
      using a by auto
    have e4: "(#) n ` set (dirs_in ds) \<inter> fst ` set (files_in es) = {}"
    proof (rule ccontr)
      assume "\<not> ?thesis"
      then obtain d c' where "(n # d, c') \<in> set (files_in es)" by auto
      from files_in_hd [OF this] n show False by simp
    qed
    have e5: "set (dirs_in es) \<inter> (#) n ` fst ` set (files_in ds) = {}"
    proof (rule ccontr)
      assume "\<not> ?thesis"
      then obtain d where "n # d \<in> set (dirs_in es)" by auto
      from dirs_in_hd [OF this] n show False by simp
    qed
    show "set (dirs_in ((n, Dir ds) # es)) \<inter> fst ` set (files_in ((n, Dir ds) # es)) = {}"
      unfolding ds fs using e1 e2
      by (simp add: Int_Un_distrib Int_Un_distrib2 e3 e4 e5 b)
  qed
qed

lemma split_slash_join:
  "p \<noteq> [] \<Longrightarrow> \<forall>n\<in>set p. CHR ''/'' \<notin> set n \<Longrightarrow> split_on CHR ''/'' (slash_join p) = p"
proof (induction p rule: induct_list012)
  case 1
  then show ?case by simp
next
  case (2 x)
  then show ?case by (simp add: slash_join_def split_on_plain)
next
  case (3 x v va)
  then have "split_on CHR ''/'' (slash_join (v # va)) = v # va" by simp
  moreover have "slash_join (x # v # va) = x @ CHR ''/'' # slash_join (v # va)"
    by (simp add: slash_join_def)
  moreover have "CHR ''/'' \<notin> set x" using 3 by simp
  ultimately show ?case
    by (simp add: split_on_append split_on_plain)
qed

lemma slash_join_inj:
  assumes "slash_join p = slash_join p'" "p \<noteq> []" "p' \<noteq> []"
    "\<forall>n\<in>set p. CHR ''/'' \<notin> set n" "\<forall>n\<in>set p'. CHR ''/'' \<notin> set n"
  shows "p = p'"
proof -
  have "split_on CHR ''/'' (slash_join p) = p"
    using assms(2,4) by (rule split_slash_join)
  moreover have "split_on CHR ''/'' (slash_join p') = p'"
    using assms(3,5) by (rule split_slash_join)
  ultimately show ?thesis using assms(1) by metis
qed

lemma pipeline_paths_distinct:
  "src_dir \<noteq> chrome_dist_dir" "src_dir \<noteq> chrome_zip_path" "chrome_dist_dir \<noteq> chrome_zip_path"
  "src_dir \<noteq> firefox_dist_dir" "src_dir \<noteq> firefox_zip_path"
  "firefox_dist_dir \<noteq> firefox_zip_path"
  by code_simp+

lemma make_zip_mset:
  assumes "wf_node tree"
  shows "mset (make_zip skip dist_dir tree) = mset (expected_entries skip tree)"
  using walk_mset(1) [of dist_dir dist_dir tree skip] assms
  by (simp add: make_zip_def expected_entries_def)

lemma expected_names_distinct:
  assumes "wf_node tree"
  shows "distinct (map fst (expected_entries skip tree))"
proof -
  let ?fs = "filter (\<lambda>(p, c). \<not> skip (last p)) (files_of tree)"
  have d: "distinct (map fst ?fs)"
    using files_paths_distinct(1) [of tree] assms by (simp add: distinct_map_filter)
  have v: "\<forall>p\<in>set (map fst ?fs). p \<noteq> [] \<and> (\<forall>n\<in>set p. CHR ''/'' \<notin> set n)"
  proof
    fix p assume "p \<in> set (map fst ?fs)"
    then obtain c where pc: "(p, c) \<in> set (files_of tree)" by auto
    have "p \<noteq> []" using pc files_in_nonempty [of p c] by (cases tree) auto
    moreover have "\<forall>n\<in>set p. valid_name n"
      using files_names_valid(1) [of tree] assms pc by auto
    ultimately show "p \<noteq> [] \<and> (\<forall>n\<in>set p. CHR ''/'' \<notin> set n)"
      by (auto dest: valid_nameD)
  qed
  have i: "inj_on slash_join (set (map fst ?fs))"
    using v by (intro inj_onI) (rule slash_join_inj, auto)
  have "distinct (map slash_join (map fst ?fs))"
    by (subst distinct_map) (rule conjI [OF d i])
  moreover have "map fst (expected_entries skip tree) = map slash_join (map fst ?fs)"
    by (simp add: expected_entries_def case_prod_unfold comp_def)
  ultimately show ?thesis by simp
qed

lemma make_zip_distinct:
  assumes "wf_node tree"
  shows "distinct (map fst (make_zip skip dist_dir tree))"
proof -
  have "mset (map fst (make_zip skip dist_dir tree)) = mset (map fst (expected_entries skip tree))"
    using make_zip_mset [OF assms, of skip dist_dir] by (metis mset_map)
  then show ?thesis
    using expected_names_distinct [OF assms, of skip] by (metis mset_eq_imp_distinct_iff)
qed

lemma make_zip_files_only:
  assumes "wf_node tree"
  shows "files_only tree (make_zip skip dist_dir tree)"
proof -
  have s: "set (make_zip skip dist_dir tree) = set (expected_entries skip tree)"
    using make_zip_mset [OF assms, of skip dist_dir] by (metis set_mset_mset)
  have a: "\<forall>(name, c)\<in>set (expected_entries skip tree).
             \<exists>p. (p, c) \<in> set (files_of tree) \<and> name = slash_join p"
    by (auto simp: expected_entries_def)
  have b: "slash_join dir \<notin> fst ` set (expected_entries skip tree)
           \<and> slash_join dir @ ''/'' \<notin> fst ` set (expected_entries skip tree)"
    if dir: "dir \<in> set (dirs_of tree)" for dir
  proof -
    have dv: "\<forall>n\<in>set dir. valid_name n"
      using dirs_names_valid(1) [of tree] assms dir by auto
    have dn: "dir \<noteq> []" using dir dirs_in_hd [of dir] by (cases tree) auto
    have nf: "dir \<notin> fst ` set (files_of tree)"
      using dirs_not_files(1) [of tree] assms dir by auto
    have ne: "slash_join dir \<noteq> slash_join p \<and> slash_join dir @ ''/'' \<noteq> slash_join p"
      if pc: "(p, c) \<in> set (files_of tree)" for p c
    proof -
      have pn: "p \<noteq> []" using pc files_in_nonempty [of p c] by (cases tree) auto
      have pv: "\<forall>n\<in>set p. valid_name n"
        using files_names_valid(1) [of tree] assms pc by auto
      have "dir \<noteq> p" using nf pc by force
      then have one: "slash_join dir \<noteq> slash_join p"
        using slash_join_inj [of dir p] dn pn dv pv by (auto dest: valid_nameD)
      have j: "slash_join dir @ ''/'' = slash_join (dir @ [[]])"
        using dn by (induction dir rule: induct_list012) (auto simp: slash_join_def)
      have "dir @ [[]] \<noteq> p" using pv by (auto dest: valid_nameD)
      then have "slash_join (dir @ [[]]) \<noteq> slash_join p"
        using slash_join_inj [of "dir @ [[]]" p] pn dv pv by (auto dest: valid_nameD)
      with one j show ?thesis by simp
    qed
    show ?thesis
    proof (intro conjI notI)
      assume "slash_join dir \<in> fst ` set (expected_entries skip tree)"
      then obtain p c where "(p, c) \<in> set (files_of tree)" "slash_join dir = slash_join p"
        by (auto simp: expected_entries_def)
      with ne show False by blast
    next
      assume "slash_join dir @ ''/'' \<in> fst ` set (expected_entries skip tree)"
      then obtain p c where "(p, c) \<in> set (files_of tree)"
        "slash_join dir @ ''/'' = slash_join p"
        by (auto simp: expected_entries_def)
      with ne show False by blast
    qed
  qed
  show ?thesis unfolding files_only_def s using a b by blast
qed

section \<open>The build scripts\<close>

lemma clean_up_ok:
  assumes "dist_dir \<noteq> zip_path" "clean_up dist_dir zip_path d = Inr d1"
  shows "d1 dist_dir = None \<and> d1 zip_path = None
         \<and> (\<forall>p. p \<noteq> dist_dir \<and> p \<noteq> zip_path \<longrightarrow> d1 p = d p)"
  using assms
  by (auto simp: clean_up_def rmtree_def os_remove_def
        split: if_splits option.splits entry.splits node.splits sum.splits)

lemma copytree_ok:
  assumes "copytree src dst d1 = Inr d2"
  shows "\<exists>es. d1 src = Some (Tree (Dir es)) \<and> d2 = d1(dst \<mapsto> Tree (Dir es))"
  using assms
  by (auto simp: copytree_def split: if_splits option.splits entry.splits node.splits)

lemma chrome_completed:
  assumes "result (build_chrome_zip d) = Completed"
  shows "\<exists>es. d src_dir = Some (Tree (Dir es))
     \<and> disk_after (build_chrome_zip d) chrome_dist_dir = None
     \<and> disk_after (build_chrome_zip d) chrome_zip_path
         = Some (Archive (make_zip ends_with_md chrome_dist_dir (Dir es)))
     \<and> (\<forall>p. p \<noteq> chrome_dist_dir \<and> p \<noteq> chrome_zip_path
           \<longrightarrow> disk_after (build_chrome_zip d) p = d p)"
proof -
  from assms obtain d1 where c: "clean_up chrome_dist_dir chrome_zip_path d = Inr d1"
    by (cases "clean_up chrome_dist_dir chrome_zip_path d") (auto simp: build_chrome_zip_def)
  from assms c obtain d2 where t: "copytree src_dir chrome_dist_dir d1 = Inr d2"
    by (cases "copytree src_dir chrome_dist_dir d1") (auto simp: build_chrome_zip_def)
  from copytree_ok [OF t] obtain es where es: "d1 src_dir = Some (Tree (Dir es))"
    and d2: "d2 = d1(chrome_dist_dir \<mapsto> Tree (Dir es))" by blast
  note k = clean_up_ok [OF pipeline_paths_distinct(3) c]
  have s: "d src_dir = Some (Tree (Dir es))"
    using k es pipeline_paths_distinct by auto
  have r: "build_chrome_zip d
     = \<lparr>printed = [success_message chrome_zip_path], result = Completed,
        disk_after = (d2(chrome_zip_path \<mapsto>
            Archive (make_zip ends_with_md chrome_dist_dir (Dir es))))(chrome_dist_dir := None)\<rparr>"
    using c t d2 pipeline_paths_distinct
    by (simp add: build_chrome_zip_def rmtree_def Let_def)
  show ?thesis
    using s k d2 pipeline_paths_distinct by (auto simp: r)
qed

lemma firefox_completed:
  assumes "result (build_firefox_zip json_load d) = Completed"
  shows "\<exists>es staged. d src_dir = Some (Tree (Dir es))
     \<and> rewrite_manifest json_load (Dir es) = Inr staged
     \<and> disk_after (build_firefox_zip json_load d) firefox_dist_dir = None
     \<and> disk_after (build_firefox_zip json_load d) firefox_zip_path
         = Some (Archive (make_zip skip_nothing firefox_dist_dir staged))
     \<and> (\<forall>p. p \<noteq> firefox_dist_dir \<and> p \<noteq> firefox_zip_path
           \<longrightarrow> disk_after (build_firefox_zip json_load d) p = d p)"
proof -
  from assms obtain d1 where c: "clean_up firefox_dist_dir firefox_zip_path d = Inr d1"
    by (cases "clean_up firefox_dist_dir firefox_zip_path d")
      (auto simp: build_firefox_zip_def)
  from assms c obtain d2 where t: "copytree src_dir firefox_dist_dir d1 = Inr d2"
    by (cases "copytree src_dir firefox_dist_dir d1") (auto simp: build_firefox_zip_def)
  from copytree_ok [OF t] obtain es where es: "d1 src_dir = Some (Tree (Dir es))"
    and d2: "d2 = d1(firefox_dist_dir \<mapsto> Tree (Dir es))" by blast
  from assms c t d2 obtain staged where w: "rewrite_manifest json_load (Dir es) = Inr staged"
    by (cases "rewrite_manifest json_load (Dir es)") (auto simp: build_firefox_zip_def)
  from w obtain es' where st: "staged = Dir es'"
    by (auto simp: rewrite_manifest_def split: option.splits node.splits sum.splits)
  note k = clean_up_ok [OF pipeline_paths_distinct(6) c]
  have s: "d src_dir = Some (Tree (Dir es))"
    using k es pipeline_paths_distinct by auto
  have r: "build_firefox_zip json_load d
     = \<lparr>printed = [success_message firefox_zip_path], result = Completed,
        disk_after = (d2(firefox_dist_dir \<mapsto> Tree staged, firefox_zip_path \<mapsto>
            Archive (make_zip skip_nothing firefox_dist_dir staged)))(firefox_dist_dir := None)\<rparr>"
    using c t d2 w st pipeline_paths_distinct
    by (simp add: build_firefox_zip_def rmtree_def Let_def)
  show ?thesis
    using s w k d2 pipeline_paths_distinct by (auto simp: r)
qed

lemma firefox_manifest_failure:
  assumes c: "clean_up firefox_dist_dir firefox_zip_path d = Inr d1"
    and s: "d src_dir = Some (Tree (Dir es))"
    and w: "rewrite_manifest json_load (Dir es) = Inl e"
  shows "result (build_firefox_zip json_load d) = Raised e
     \<and> disk_after (build_firefox_zip json_load d) firefox_zip_path = None
     \<and> disk_after (build_firefox_zip json_load d) firefox_dist_dir = Some (Tree (Dir es))"
proof -
  note k = clean_up_ok [OF pipeline_paths_distinct(6) c]
  have "d1 src_dir = Some (Tree (Dir es))"
    using k s pipeline_paths_distinct by auto
  then have t: "copytree src_dir firefox_dist_dir d1 = Inr (d1(firefox_dist_dir \<mapsto> Tree (Dir es)))"
    using k by (simp add: copytree_def)
  show ?thesis
    using c t w k pipeline_paths_distinct by (simp add: build_firefox_zip_def)
qed

lemma write_file_names:
  "lookup_entry n es \<noteq> None \<Longrightarrow> map fst (write_file n t es) = map fst es"
  by (induction es) auto

lemma write_file_wf:
  "wf_entries es \<Longrightarrow> lookup_entry n es \<noteq> None \<Longrightarrow> wf_entries (write_file n t es)"
proof (induction es)
  case Nil
  then show ?case by simp
next
  case (Cons a es)
  obtain n' x where a: "a = (n', x)" by (cases a)
  show ?case
  proof (cases "n' = n")
    case True
    with Cons a show ?thesis by simp
  next
    case False
    with Cons a have "lookup_entry n es \<noteq> None" by simp
    with Cons a False show ?thesis by (simp add: write_file_names)
  qed
qed

lemma write_file_member:
  "lookup_entry n es \<noteq> None \<Longrightarrow> ([n], t) \<in> set (files_in (write_file n t es))"
proof (induction es)
  case Nil
  then show ?case by simp
next
  case (Cons a es)
  obtain n' x where a: "a = (n', x)" by (cases a)
  show ?case using Cons a by (cases x) auto
qed

lemma rewrite_manifest_ok:
  assumes "rewrite_manifest json_load (Dir es) = Inr staged"
    and "lookup_entry ''manifest.json'' es = Some (File text)"
    and "json_load text = Inr manifest"
  shows "\<exists>manifest'. fix_manifest manifest = Inr manifest'
           \<and> staged = Dir (write_file ''manifest.json'' (json_dumps manifest') es)"
  using assms by (auto simp: rewrite_manifest_def split: sum.splits)

lemma rewrite_manifest_wf:
  assumes "rewrite_manifest json_load tree = Inr staged" "wf_node tree"
  shows "wf_node staged"
  using assms
  by (auto simp: rewrite_manifest_def write_file_wf
        split: sum.splits option.splits node.splits)

lemma dict_set_keys: "map_of m k \<noteq> None \<Longrightarrow> map fst (dict_set k v m) = map fst m"
  by (induction m) auto

lemma dict_set_others:
  "i < length m \<Longrightarrow> fst (m ! i) \<noteq> k \<Longrightarrow> dict_set k v m ! i = m ! i"
proof (induction m arbitrary: i)
  case Nil
  then show ?case by simp
next
  case (Cons a m)
  obtain k' v' where a: "a = (k', v')" by (cases a)
  show ?case using Cons a by (cases i) auto
qed

lemma py_pop_ok:
  "py_pop c k = Inr (v, c') \<Longrightarrow> \<exists>kvs. c = JObj kvs \<and> c' = JObj (dict_del k kvs)"
  by (cases c) (auto split: option.splits)

lemma fix_manifest_shape:
  assumes "fix_manifest manifest = Inr out"
  shows "out = manifest
     \<or> (\<exists>m b'. manifest = JObj m \<and> map_of m ''background'' \<noteq> None
              \<and> out = JObj (dict_set ''background'' (JObj b') m))"
proof (cases manifest)
  case (JObj m)
  show ?thesis
  proof (cases "map_of m ''background''")
    case None
    with assms JObj show ?thesis by (simp add: fix_manifest_def key_in_iff')
  next
    case (Some bg)
    then have *: "py_in (JStr ''background'') manifest = Inr True"
      "py_getitem manifest ''background'' = Inr bg"
      using JObj by (simp_all add: key_in_iff')
    show ?thesis
      using assms Some JObj unfolding fix_manifest_def *
      by (auto simp: set_background_def dest!: py_pop_ok
            split: sum.splits bool.splits json.splits prod.splits)
  qed
qed (use assms in \<open>auto simp: fix_manifest_def split: sum.splits bool.splits\<close>)

lemma fix_manifest_background_only:
  assumes "fix_manifest manifest = Inr out"
  shows "background_only manifest out"
  using fix_manifest_shape [OF assms]
  by (auto simp: background_only_def dict_set_keys dict_set_others split: json.splits)

text \<open>
  Claim C5. For every staging tree, the archive a completed run leaves has exactly one
  entry for every file that the exclusion of the script does not match, named by the
  path of the file relative to the staging root with forward slashes, and no entry for an
  excluded file: the entries are, as a multiset, the expected ones, and no name occurs
  twice. The Chrome script excludes the names that end in \<open>.md\<close>, the Firefox script
  excludes nothing; the staging tree of the Chrome script is the copy of the source tree,
  that of the Firefox script is the copy with the manifest rewritten.
\<close>

theorem archive_has_one_entry_per_file:
  "(d src_dir = Some (Tree tree) \<and> wf_node tree \<and> result (build_chrome_zip d) = Completed
      \<longrightarrow> (\<exists>entries. disk_after (build_chrome_zip d) chrome_zip_path = Some (Archive entries)
             \<and> mset entries = mset (expected_entries ends_with_md tree)
             \<and> distinct (map fst entries)))
   \<and> (d src_dir = Some (Tree tree) \<and> wf_node tree
        \<and> result (build_firefox_zip json_load d) = Completed
      \<longrightarrow> (\<exists>staged entries. rewrite_manifest json_load tree = Inr staged
             \<and> disk_after (build_firefox_zip json_load d) firefox_zip_path
                 = Some (Archive entries)
             \<and> mset entries = mset (expected_entries skip_nothing staged)
             \<and> expected_entries skip_nothing staged
                 = map (\<lambda>(p, c). (slash_join p, c)) (files_of staged)
             \<and> distinct (map fst entries)))"
proof (intro conjI impI)
  assume a: "d src_dir = Some (Tree tree) \<and> wf_node tree
      \<and> result (build_chrome_zip d) = Completed"
  then obtain es where "tree = Dir es"
    and "disk_after (build_chrome_zip d) chrome_zip_path
         = Some (Archive (make_zip ends_with_md chrome_dist_dir tree))"
    using chrome_completed [of d] by auto
  with a show "\<exists>entries. disk_after (build_chrome_zip d) chrome_zip_path = Some (Archive entries)
             \<and> mset entries = mset (expected_entries ends_with_md tree)
             \<and> distinct (map fst entries)"
    by (simp add: make_zip_mset make_zip_distinct)
next
  assume a: "d src_dir = Some (Tree tree) \<and> wf_node tree
        \<and> result (build_firefox_zip json_load d) = Completed"
  then obtain es staged where "tree = Dir es"
    and w: "rewrite_manifest json_load tree = Inr staged"
    and z: "disk_after (build_firefox_zip json_load d) firefox_zip_path
         = Some (Archive (make_zip skip_nothing firefox_dist_dir staged))"
    using firefox_completed [of json_load d] by auto
  have "wf_node staged" using w a by (auto intro: rewrite_manifest_wf)
  then have "mset (make_zip skip_nothing firefox_dist_dir staged)
               = mset (expected_entries skip_nothing staged)"
    and "distinct (map fst (make_zip skip_nothing firefox_dist_dir staged))"
    by (simp_all add: make_zip_mset make_zip_distinct)
  moreover have "expected_entries skip_nothing staged
                 = map (\<lambda>(p, c). (slash_join p, c)) (files_of staged)"
    by (simp add: expected_entries_def skip_nothing_def)
  ultimately show "\<exists>staged entries. rewrite_manifest json_load tree = Inr staged
             \<and> disk_after (build_firefox_zip json_load d) firefox_zip_path
                 = Some (Archive entries)
             \<and> mset entries = mset (expected_entries skip_nothing staged)
             \<and> expected_entries skip_nothing staged
                 = map (\<lambda>(p, c). (slash_join p, c)) (files_of staged)
             \<and> distinct (map fst entries)"
    using w z by blast
qed

theorem archive_has_one_entry_per_file_witness:
  "disk_after (build_chrome_zip sample_disk) chrome_zip_path
     = Some (Archive [(''manifest.json'', sample_manifest_text), (''icon.png'', ''PNG''),
                      (''icons/a.png'', ''A'')])
   \<and> expected_entries ends_with_md sample_tree
       = [(''manifest.json'', sample_manifest_text), (''icon.png'', ''PNG''),
          (''icons/a.png'', ''A'')]
   \<and> (\<exists>entries. disk_after (build_chrome_zip sample_disk) chrome_zip_path
                    = Some (Archive entries)
          \<and> mset entries = mset (expected_entries ends_with_md sample_tree)
          \<and> distinct (map fst entries))
   \<and> (\<exists>staged entries. rewrite_manifest sample_load sample_tree = Inr staged
          \<and> disk_after (build_firefox_zip sample_load sample_disk) firefox_zip_path
              = Some (Archive entries)
          \<and> mset entries = mset (expected_entries skip_nothing staged)
          \<and> expected_entries skip_nothing staged
              = map (\<lambda>(p, c). (slash_join p, c)) (files_of staged)
          \<and> distinct (map fst entries))"
proof -
  have a: "sample_disk src_dir = Some (Tree sample_tree)" by (simp add: sample_disk_def)
  have b: "wf_node sample_tree" by code_simp
  have c: "result (build_chrome_zip sample_disk) = Completed" by code_simp
  have d: "result (build_firefox_zip sample_load sample_disk) = Completed" by code_simp
  have e: "disk_after (build_chrome_zip sample_disk) chrome_zip_path
     = Some (Archive [(''manifest.json'', sample_manifest_text), (''icon.png'', ''PNG''),
                      (''icons/a.png'', ''A'')])"
    by code_simp
  have f: "expected_entries ends_with_md sample_tree
       = [(''manifest.json'', sample_manifest_text), (''icon.png'', ''PNG''),
          (''icons/a.png'', ''A'')]"
    by code_simp
  show ?thesis
    using archive_has_one_entry_per_file [of sample_disk sample_tree sample_load] a b c d e f
    by blast
qed

text \<open>
  Claim C10. For every staging tree, the archive a completed run leaves holds entries of
  regular files only: every entry is a file of the tree, and no directory of the tree,
  empty or not, has an entry.
\<close>

theorem archive_holds_files_only:
  "(d src_dir = Some (Tree tree) \<and> wf_node tree \<and> result (build_chrome_zip d) = Completed
      \<longrightarrow> (\<exists>entries. disk_after (build_chrome_zip d) chrome_zip_path = Some (Archive entries)
             \<and> files_only tree entries))
   \<and> (d src_dir = Some (Tree tree) \<and> wf_node tree
        \<and> result (build_firefox_zip json_load d) = Completed
      \<longrightarrow> (\<exists>staged entries. rewrite_manifest json_load tree = Inr staged
             \<and> disk_after (build_firefox_zip json_load d) firefox_zip_path
                 = Some (Archive entries)
             \<and> files_only staged entries))"
proof (intro conjI impI)
  assume a: "d src_dir = Some (Tree tree) \<and> wf_node tree
      \<and> result (build_chrome_zip d) = Completed"
  then obtain es where "tree = Dir es"
    and "disk_after (build_chrome_zip d) chrome_zip_path
         = Some (Archive (make_zip ends_with_md chrome_dist_dir tree))"
    using chrome_completed [of d] by auto
  with a show "\<exists>entries. disk_after (build_chrome_zip d) chrome_zip_path = Some (Archive entries)
             \<and> files_only tree entries"
    by (simp add: make_zip_files_only)
next
  assume a: "d src_dir = Some (Tree tree) \<and> wf_node tree
        \<and> result (build_firefox_zip json_load d) = Completed"
  then obtain es staged where "tree = Dir es"
    and w: "rewrite_manifest json_load tree = Inr staged"
    and z: "disk_after (build_firefox_zip json_load d) firefox_zip_path
         = Some (Archive (make_zip skip_nothing firefox_dist_dir staged))"
    using firefox_completed [of json_load d] by auto
  have "wf_node staged" using w a by (auto intro: rewrite_manifest_wf)
  then have "files_only staged (make_zip skip_nothing firefox_dist_dir staged)"
    by (rule make_zip_files_only)
  with w z show "\<exists>staged entries. rewrite_manifest json_load tree = Inr staged
             \<and> disk_after (build_firefox_zip json_load d) firefox_zip_path
                 = Some (Archive entries)
             \<and> files_only staged entries"
    by blast
qed

theorem archive_holds_files_only_witness:
  "dirs_of sample_tree = [[''icons''], [''icons'', ''empty'']]
   \<and> (\<exists>entries. disk_after (build_chrome_zip sample_disk) chrome_zip_path
                    = Some (Archive entries)
          \<and> files_only sample_tree entries
          \<and> ''icons/empty'' \<notin> fst ` set entries \<and> ''icons/empty/'' \<notin> fst ` set entries)
   \<and> (\<exists>staged entries. rewrite_manifest sample_load sample_tree = Inr staged
          \<and> disk_after (build_firefox_zip sample_load sample_disk) firefox_zip_path
              = Some (Archive entries)
          \<and> files_only staged entries)"
proof -
  have a: "sample_disk src_dir = Some (Tree sample_tree)" by (simp add: sample_disk_def)
  have b: "wf_node sample_tree" by code_simp
  have c: "result (build_chrome_zip sample_disk) = Completed" by code_simp
  have d: "result (build_firefox_zip sample_load sample_disk) = Completed" by code_simp
  have e: "dirs_of sample_tree = [[''icons''], [''icons'', ''empty'']]" by code_simp
  have f: "slash_join [''icons'', ''empty''] = ''icons/empty''" by code_simp
  from archive_holds_files_only [of sample_disk sample_tree sample_load] a b c
  obtain entries where g: "disk_after (build_chrome_zip sample_disk) chrome_zip_path
                    = Some (Archive entries)" and h: "files_only sample_tree entries"
    by blast
  from h have "\<forall>dir\<in>set (dirs_of sample_tree).
      slash_join dir \<notin> fst ` set entries \<and> slash_join dir @ ''/'' \<notin> fst ` set entries"
    by (simp add: files_only_def)
  then have "slash_join [''icons'', ''empty''] \<notin> fst ` set entries
      \<and> slash_join [''icons'', ''empty''] @ ''/'' \<notin> fst ` set entries"
    unfolding e by simp
  then have "''icons/empty'' \<notin> fst ` set entries \<and> ''icons/empty/'' \<notin> fst ` set entries"
    unfolding f by simp
  with g h e archive_holds_files_only [of sample_disk sample_tree sample_load] a b d
  show ?thesis by blast
qed

text \<open>
  Claim C8. After a completed run of either script the staging directory does not exist,
  the output archive exists, and every other path is as it was. After a run of the
  Firefox script that fails while it reads, decodes or rewrites the manifest, the staging
  directory still exists and the output archive does not.
\<close>

theorem cleanup_after_run:
  "(result (build_chrome_zip d) = Completed
      \<longrightarrow> disk_after (build_chrome_zip d) chrome_dist_dir = None
          \<and> (\<exists>entries. disk_after (build_chrome_zip d) chrome_zip_path = Some (Archive entries))
          \<and> (\<forall>p. p \<noteq> chrome_dist_dir \<and> p \<noteq> chrome_zip_path
                \<longrightarrow> disk_after (build_chrome_zip d) p = d p))
   \<and> (result (build_firefox_zip json_load d) = Completed
      \<longrightarrow> disk_after (build_firefox_zip json_load d) firefox_dist_dir = None
          \<and> (\<exists>entries. disk_after (build_firefox_zip json_load d) firefox_zip_path
                          = Some (Archive entries))
          \<and> (\<forall>p. p \<noteq> firefox_dist_dir \<and> p \<noteq> firefox_zip_path
                \<longrightarrow> disk_after (build_firefox_zip json_load d) p = d p))
   \<and> (clean_up firefox_dist_dir firefox_zip_path d = Inr d1
        \<and> d src_dir = Some (Tree (Dir es))
        \<and> rewrite_manifest json_load (Dir es) = Inl e
      \<longrightarrow> result (build_firefox_zip json_load d) = Raised e
          \<and> disk_after (build_firefox_zip json_load d) firefox_zip_path = None
          \<and> disk_after (build_firefox_zip json_load d) firefox_dist_dir
              = Some (Tree (Dir es)))"
proof (intro conjI impI)
  assume "result (build_chrome_zip d) = Completed"
  from chrome_completed [OF this]
  show "disk_after (build_chrome_zip d) chrome_dist_dir = None"
    and "\<exists>entries. disk_after (build_chrome_zip d) chrome_zip_path = Some (Archive entries)"
    and "\<forall>p. p \<noteq> chrome_dist_dir \<and> p \<noteq> chrome_zip_path
                \<longrightarrow> disk_after (build_chrome_zip d) p = d p"
    by blast+
next
  assume "result (build_firefox_zip json_load d) = Completed"
  from firefox_completed [OF this]
  show "disk_after (build_firefox_zip json_load d) firefox_dist_dir = None"
    and "\<exists>entries. disk_after (build_firefox_zip json_load d) firefox_zip_path
                          = Some (Archive entries)"
    and "\<forall>p. p \<noteq> firefox_dist_dir \<and> p \<noteq> firefox_zip_path
                \<longrightarrow> disk_after (build_firefox_zip json_load d) p = d p"
    by blast+
next
  assume a: "clean_up firefox_dist_dir firefox_zip_path d = Inr d1
        \<and> d src_dir = Some (Tree (Dir es))
        \<and> rewrite_manifest json_load (Dir es) = Inl e"
  then have "result (build_firefox_zip json_load d) = Raised e
          \<and> disk_after (build_firefox_zip json_load d) firefox_zip_path = None
          \<and> disk_after (build_firefox_zip json_load d) firefox_dist_dir
              = Some (Tree (Dir es))"
    using firefox_manifest_failure [of d d1 es json_load e] by blast
  then show "result (build_firefox_zip json_load d) = Raised e"
    and "disk_after (build_firefox_zip json_load d) firefox_zip_path = None"
    and "disk_after (build_firefox_zip json_load d) firefox_dist_dir = Some (Tree (Dir es))"
    by blast+
qed

theorem cleanup_after_run_witness:
  "result (build_chrome_zip sample_disk) = Completed
   \<and> disk_after (build_chrome_zip sample_disk) chrome_dist_dir = None
   \<and> (\<exists>entries. disk_after (build_chrome_zip sample_disk) chrome_zip_path
                    = Some (Archive entries))
   \<and> disk_after (build_chrome_zip sample_disk) src_dir = sample_disk src_dir
   \<and> result (build_firefox_zip sample_load sample_disk) = Completed
   \<and> disk_after (build_firefox_zip sample_load sample_disk) firefox_dist_dir = None
   \<and> (\<exists>entries. disk_after (build_firefox_zip sample_load sample_disk) firefox_zip_path
                    = Some (Archive entries))
   \<and> result (build_firefox_zip sample_load broken_disk) = Raised JSONDecodeError
   \<and> disk_after (build_firefox_zip sample_load broken_disk) firefox_zip_path = None
   \<and> disk_after (build_firefox_zip sample_load broken_disk) firefox_dist_dir
       = Some (Tree (Dir [(''manifest.json'', File ''not json'')]))"
proof -
  have a: "result (build_chrome_zip sample_disk) = Completed" by code_simp
  have b: "result (build_firefox_zip sample_load sample_disk) = Completed" by code_simp
  have c: "clean_up firefox_dist_dir firefox_zip_path broken_disk = Inr broken_disk"
    by (simp add: clean_up_def broken_disk_def pipeline_paths_distinct [symmetric])
  have d: "broken_disk src_dir = Some (Tree (Dir [(''manifest.json'', File ''not json'')]))"
    by (simp add: broken_disk_def)
  have e: "rewrite_manifest sample_load (Dir [(''manifest.json'', File ''not json'')])
             = Inl JSONDecodeError"
    by code_simp
  have f: "src_dir \<noteq> chrome_dist_dir \<and> src_dir \<noteq> chrome_zip_path"
    by (simp add: pipeline_paths_distinct)
  show ?thesis
    using cleanup_after_run [of sample_disk sample_load broken_disk
        "[(''manifest.json'', File ''not json'')]" JSONDecodeError]
      cleanup_after_run [of broken_disk sample_load broken_disk
        "[(''manifest.json'', File ''not json'')]" JSONDecodeError]
      a b c d e f
    by blast
qed

lemma same_name_same_text:
  "distinct (map fst xs) \<Longrightarrow> (k, a) \<in> set xs \<Longrightarrow> (k, b) \<in> set xs \<Longrightarrow> a = b"
  by (meson eq_key_imp_eq_value)

text \<open>
  Claim C2, as stated, fails: \<open>json.dump\<close> writes the manifest anew. A manifest without a
  background section, laid out as \<open>json.dump\<close> lays it out, whose name holds an \<open>e\<close> with
  an acute accent, is archived with that character escaped: the name field of the archived
  manifest is not the bytes of the source.
\<close>

theorem manifest_bytes_counterexample:
  "cafe_disk src_dir = Some (Tree (Dir [(''manifest.json'', File cafe_manifest_text)]))
   \<and> cafe_load cafe_manifest_text = Inr cafe_manifest
   \<and> fix_manifest cafe_manifest = Inr cafe_manifest
   \<and> result (build_firefox_zip cafe_load cafe_disk) = Completed
   \<and> disk_after (build_firefox_zip cafe_load cafe_disk) firefox_zip_path
       = Some (Archive [(''manifest.json'', cafe_archived_text)])
   \<and> cafe_archived_text \<noteq> cafe_manifest_text"
proof -
  have a: "cafe_disk src_dir = Some (Tree (Dir [(''manifest.json'', File cafe_manifest_text)]))"
    by (simp add: cafe_disk_def)
  have b: "cafe_load cafe_manifest_text = Inr cafe_manifest" by (simp add: cafe_load_def)
  have c: "fix_manifest cafe_manifest = Inr cafe_manifest" by code_simp
  have d: "result (build_firefox_zip cafe_load cafe_disk) = Completed" by code_simp
  have e: "disk_after (build_firefox_zip cafe_load cafe_disk) firefox_zip_path
       = Some (Archive [(''manifest.json'', cafe_archived_text)])"
    by code_simp
  have f: "cafe_archived_text \<noteq> cafe_manifest_text" by code_simp
  from a b c d e f show ?thesis by blast
qed

text \<open>
  Claim C2, amended. In the output of a completed run of the Firefox script, the archived
  \<open>manifest.json\<close> is the text \<open>json.dump\<close> with \<open>indent=4\<close> gives for the decoded source
  manifest after the rewrite, and that value differs from the decoded source manifest in
  the background section only: it has the same keys in the same order, and every entry
  other than \<open>background\<close> is the decoded value of the source.
\<close>

theorem manifest_entry_rewritten:
  "d src_dir = Some (Tree (Dir es)) \<and> wf_entries es
   \<and> lookup_entry ''manifest.json'' es = Some (File text)
   \<and> json_load text = Inr manifest
   \<and> result (build_firefox_zip json_load d) = Completed
   \<longrightarrow> (\<exists>manifest' entries.
          fix_manifest manifest = Inr manifest'
        \<and> background_only manifest manifest'
        \<and> disk_after (build_firefox_zip json_load d) firefox_zip_path = Some (Archive entries)
        \<and> (\<forall>t. (''manifest.json'', t) \<in> set entries \<longleftrightarrow> t = json_dumps manifest'))"
proof
  assume a: "d src_dir = Some (Tree (Dir es)) \<and> wf_entries es
   \<and> lookup_entry ''manifest.json'' es = Some (File text)
   \<and> json_load text = Inr manifest
   \<and> result (build_firefox_zip json_load d) = Completed"
  then obtain staged where w: "rewrite_manifest json_load (Dir es) = Inr staged"
    and z: "disk_after (build_firefox_zip json_load d) firefox_zip_path
         = Some (Archive (make_zip skip_nothing firefox_dist_dir staged))"
    using firefox_completed [of json_load d] by auto
  from rewrite_manifest_ok [OF w] a obtain manifest'
    where f: "fix_manifest manifest = Inr manifest'"
      and st: "staged = Dir (write_file ''manifest.json'' (json_dumps manifest') es)"
    by blast
  let ?entries = "make_zip skip_nothing firefox_dist_dir staged"
  have wf: "wf_node staged" using w a by (auto intro: rewrite_manifest_wf)
  have s: "set ?entries = set (expected_entries skip_nothing staged)"
    using make_zip_mset [OF wf, of skip_nothing firefox_dist_dir] by (metis set_mset_mset)
  have "([''manifest.json''], json_dumps manifest') \<in> set (files_of staged)"
    unfolding st using a by (simp add: write_file_member)
  then have "(slash_join [''manifest.json''], json_dumps manifest')
               \<in> set (expected_entries skip_nothing staged)"
    by (force simp: expected_entries_def skip_nothing_def)
  then have m: "(''manifest.json'', json_dumps manifest') \<in> set ?entries"
    using s by (simp add: slash_join_def)
  have dn: "distinct (map fst ?entries)" using wf by (rule make_zip_distinct)
  have "\<forall>t. (''manifest.json'', t) \<in> set ?entries \<longleftrightarrow> t = json_dumps manifest'"
    using m same_name_same_text [OF dn _ m] by blast
  with f z fix_manifest_background_only [OF f]
  show "\<exists>manifest' entries.
          fix_manifest manifest = Inr manifest'
        \<and> background_only manifest manifest'
        \<and> disk_after (build_firefox_zip json_load d) firefox_zip_path = Some (Archive entries)
        \<and> (\<forall>t. (''manifest.json'', t) \<in> set entries \<longleftrightarrow> t = json_dumps manifest')"
    by blast
qed

theorem manifest_entry_rewritten_witness:
  "fix_manifest sample_manifest
     = Inr (JObj [(''manifest_version'', JInt 3),
                  (''background'', JObj [(''scripts'', JArr [JStr ''bg.js''])])])
   \<and> (\<exists>manifest' entries.
          fix_manifest sample_manifest = Inr manifest'
        \<and> background_only sample_manifest manifest'
        \<and> disk_after (build_firefox_zip sample_load sample_disk) firefox_zip_path
            = Some (Archive entries)
        \<and> (\<forall>t. (''manifest.json'', t) \<in> set entries \<longleftrightarrow> t = json_dumps manifest'))"
proof -
  let ?es = "[(''manifest.json'', File sample_manifest_text),
          (''icon.png'', File ''PNG''),
          (''README.md'', File ''# Kurate''),
          (''icons'', Dir [(''a.png'', File ''A''), (''empty'', Dir [])])]"
  have a: "sample_disk src_dir = Some (Tree (Dir ?es))"
    by (simp add: sample_disk_def sample_tree_def)
  have b: "wf_entries ?es" by code_simp
  have c: "lookup_entry ''manifest.json'' ?es = Some (File sample_manifest_text)" by simp
  have d: "sample_load sample_manifest_text = Inr sample_manifest"
    by (simp add: sample_load_def)
  have e: "result (build_firefox_zip sample_load sample_disk) = Completed" by code_simp
  have f: "fix_manifest sample_manifest
     = Inr (JObj [(''manifest_version'', JInt 3),
                  (''background'', JObj [(''scripts'', JArr [JStr ''bg.js''])])])"
    by code_simp
  show ?thesis
    using manifest_entry_rewritten [of sample_disk ?es sample_manifest_text sample_load
        sample_manifest] a b c d e f
    by blast
qed

end
